theory Spec2Isabelle
  imports Main "HOL-Library.Multiset"
begin

section \<open>Strings\<close>

text \<open>
  JavaScript strings are modelled as \<^typ>\<open>string\<close>, one \<^typ>\<open>char\<close> for each code unit. The functions
  below are the \<^verbatim>\<open>String.prototype\<close> methods that the storage layer calls, restricted to the
  code units a \<^typ>\<open>char\<close> can hold.
\<close>

text \<open>
  \<^verbatim>\<open>s.split(sep)\<close> for a one-character separator: the result always has at least one
  segment, and \<^verbatim>\<open>"".split(",")\<close> is \<^verbatim>\<open>[""]\<close>.
\<close>

fun split_str :: "char \<Rightarrow> string \<Rightarrow> string list" where
  "split_str sep [] = [[]]"
| "split_str sep (c # cs) =
     (if c = sep then [] # split_str sep cs
      else (case split_str sep cs of [] \<Rightarrow> [[c]] | seg # segs \<Rightarrow> (c # seg) # segs))"

text \<open>\<^verbatim>\<open>segs.join(sep)\<close>.\<close>

fun join_str :: "string \<Rightarrow> string list \<Rightarrow> string" where
  "join_str sep [] = []"
| "join_str sep [s] = s"
| "join_str sep (s # t # ts) = s @ sep @ join_str sep (t # ts)"

text \<open>
  \<^verbatim>\<open>s.trim()\<close> removes white space and line terminators from both ends: the code units
  9 to 13, 32 and 160 among those below 256.
\<close>

definition is_white_space :: "char \<Rightarrow> bool" where
  "is_white_space c \<longleftrightarrow> (of_char c :: nat) \<in> {9, 10, 11, 12, 13, 32, 160}"

definition trim :: "string \<Rightarrow> string" where
  "trim s = rev (dropWhile is_white_space (rev (dropWhile is_white_space s)))"

text \<open>
  \<^verbatim>\<open>s.toLowerCase()\<close> on the letters \<^verbatim>\<open>A\<close> to \<^verbatim>\<open>Z\<close>; every other code unit is kept. The only
  use of the result is a comparison of its end with extensions written in the letters
  \<^verbatim>\<open>a\<close> to \<^verbatim>\<open>z\<close>.
\<close>

definition toLowerCase_char :: "char \<Rightarrow> char" where
  "toLowerCase_char c =
     (case map_of (zip ''ABCDEFGHIJKLMNOPQRSTUVWXYZ'' ''abcdefghijklmnopqrstuvwxyz'') c of
        None \<Rightarrow> c
      | Some l \<Rightarrow> l)"

definition toLowerCase :: "string \<Rightarrow> string" where
  "toLowerCase s = map toLowerCase_char s"

text \<open>\<^verbatim>\<open>s.endsWith(suf)\<close>.\<close>

definition endsWith :: "string \<Rightarrow> string \<Rightarrow> bool" where
  "endsWith s suf \<longleftrightarrow> length suf \<le> length s \<and> drop (length s - length suf) s = suf"

subsection \<open>Class lists, image file names, label file stems\<close>

text \<open>
  \<^verbatim>\<open>normalizeClassesString\<close>: split at commas, trim every segment, drop the empty ones
  (\<^verbatim>\<open>filter(Boolean)\<close>), join with commas.
\<close>

definition normalizeClassesString :: "string \<Rightarrow> string" where
  "normalizeClassesString v =
     join_str '','' (filter (\<lambda>c. c \<noteq> []) (map trim (split_str CHR '','' v)))"

text \<open>The class names of a class list, before they are joined.\<close>

definition class_segments :: "string \<Rightarrow> string list" where
  "class_segments v = filter (\<lambda>c. c \<noteq> []) (map trim (split_str CHR '','' v))"

definition isImageFilename :: "string \<Rightarrow> bool" where
  "isImageFilename name =
     (let lower = toLowerCase name
      in endsWith lower ''.jpg'' \<or> endsWith lower ''.jpeg'' \<or> endsWith lower ''.png'' \<or>
         endsWith lower ''.webp'' \<or> endsWith lower ''.gif'' \<or> endsWith lower ''.bmp'' \<or>
         endsWith lower ''.avif'')"

text \<open>
  \<^verbatim>\<open>base.replace(/\.[^.]+$/, "")\<close>: the leftmost place where the pattern matches is a dot
  followed by one or more characters, none of them a dot, up to the end of the string;
  the match is replaced by the empty string.
\<close>

fun strip_ext :: "string \<Rightarrow> string" where
  "strip_ext [] = []"
| "strip_ext (c # cs) =
     (if c = CHR ''.'' \<and> cs \<noteq> [] \<and> CHR ''.'' \<notin> set cs then [] else c # strip_ext cs)"

text \<open>
  \<^verbatim>\<open>neurovaStem\<close>: the last segment of the path (\<^verbatim>\<open>split("/").pop()\<close>, never undefined
  since a split has at least one segment), without its extension.
\<close>

definition neurovaStem :: "string \<Rightarrow> string" where
  "neurovaStem filename = strip_ext (last (split_str CHR ''/'' filename))"

section \<open>The annotation canvas\<close>

text \<open>
  The \<^verbatim>\<open>Box\<close> interface of the annotation page. Coordinates are JavaScript numbers;
  the model keeps them in any linearly ordered type with an addition, which is all that
  \<^verbatim>\<open>hitTestBoxIndex\<close> uses (\<^verbatim>\<open>+\<close>, \<^verbatim>\<open>Math.min\<close>, \<^verbatim>\<open>Math.max\<close>, \<^verbatim>\<open>>=\<close>, \<^verbatim>\<open><=\<close>).
\<close>

record 'a Box =
  box_id :: "nat option"
  classId :: nat
  box_x :: 'a
  box_y :: 'a
  box_width :: 'a
  box_height :: 'a

text \<open>The body of the loop of \<^verbatim>\<open>hitTestBoxIndex\<close>: the test made on one box \<^verbatim>\<open>b\<close>.\<close>

definition box_hit :: "'a::{linorder,plus} \<Rightarrow> 'a \<Rightarrow> 'a Box \<Rightarrow> bool" where
  "box_hit x y b =
     (let x1 = min (box_x b) (box_x b + box_width b);
          y1 = min (box_y b) (box_y b + box_height b);
          x2 = max (box_x b) (box_x b + box_width b);
          y2 = max (box_y b) (box_y b + box_height b)
      in x \<ge> x1 \<and> x \<le> x2 \<and> y \<ge> y1 \<and> y \<le> y2)"

text \<open>
  \<^verbatim>\<open>for (let i = boxes.length - 1; i >= 0; i--)\<close>: the loop counts down; \<open>hit_loop x y boxes n\<close>
  is the loop about to look at index \<open>n - 1\<close>, and \<open>None\<close> is the \<^verbatim>\<open>null\<close> returned after it.
\<close>

fun hit_loop :: "'a::{linorder,plus} \<Rightarrow> 'a \<Rightarrow> 'a Box list \<Rightarrow> nat \<Rightarrow> nat option" where
  "hit_loop x y boxes 0 = None"
| "hit_loop x y boxes (Suc i) =
     (if box_hit x y (boxes ! i) then Some i else hit_loop x y boxes i)"

definition hitTestBoxIndex :: "'a::{linorder,plus} \<Rightarrow> 'a \<Rightarrow> 'a Box list \<Rightarrow> nat option" where
  "hitTestBoxIndex x y boxes = hit_loop x y boxes (length boxes)"

text \<open>
  What the specification calls a point inside a box: inside the closed rectangle spanned
  by the corners \<open>(min x (x + w), min y (y + h))\<close> and \<open>(max x (x + w), max y (y + h))\<close>.
\<close>

definition inside_rect :: "'a::{linorder,plus} \<Rightarrow> 'a \<Rightarrow> 'a Box \<Rightarrow> bool" where
  "inside_rect x y b \<longleftrightarrow>
     min (box_x b) (box_x b + box_width b) \<le> x \<and> x \<le> max (box_x b) (box_x b + box_width b) \<and>
     min (box_y b) (box_y b + box_height b) \<le> y \<and> y \<le> max (box_y b) (box_y b + box_height b)"

section \<open>The storage layer\<close>

subsection \<open>Records\<close>

text \<open>
  Keys are the numbers that the object stores generate (\<^verbatim>\<open>autoIncrement\<close>). The fields
  \<^verbatim>\<open>created_at\<close> and \<^verbatim>\<open>updated_at\<close> only ever hold a result of \<^verbatim>\<open>nowIso()\<close>, and are only
  ever read through \<^verbatim>\<open>new Date(...).getTime()\<close>: the model keeps the instant itself, in
  milliseconds. The remaining JavaScript numbers (box coordinates, class indices, image
  sizes) are stored and printed but never computed with: they are a type parameter \<open>'n\<close>.
\<close>

type_synonym key = nat
type_synonym time = int

datatype error =
    Error string
  | RequestError
  | TransactionError
  | DataError
  | TransactionInactiveError
  | NotAllowedError
  | AbortError

text \<open>
  A number that a function receives as a key. The keys of stored records are the whole
  numbers of the key generators. \<^verbatim>\<open>NaN\<close> is no valid key, and a request with it throws a
  \<^verbatim>\<open>DataError\<close>; every other number is a valid key, and one that is no natural number
  (negative, fractional, infinite) is the key of no record. \<^verbatim>\<open>getProject\<close> and
  \<^verbatim>\<open>exportNeurova\<close> are what a page calls first with \<^verbatim>\<open>Number(...)\<close> of a part of its
  address, and take such a number; the other functions are modelled for the keys of
  records, natural numbers.
\<close>

datatype number = Natural key | NoNatural | NaN

record File =
  file_name :: string
  file_data :: string

datatype fs_file = FileSystemFileHandle File

datatype fs_dir = FileSystemDirectoryHandle "(string \<times> fs_entry) list"
  and fs_entry = FileKind fs_file | DirectoryKind fs_dir

record Project =
  p_id :: key
  p_name :: string
  p_description :: "string option"
  p_classes :: string
  p_created_at :: time
  p_updated_at :: time

record ProjectRecord = Project +
  root_handle :: "fs_dir option"

record 'n Image =
  im_id :: key
  project_id :: key
  filename :: string
  file_path :: string
  im_width :: "'n option"
  im_height :: "'n option"
  im_created_at :: time

record 'n ImageRecord = "'n Image" +
  blob :: "File option"
  file_handle :: "fs_file option"

record 'n Annotation =
  an_id :: key
  image_id :: key
  class_id :: 'n
  x_center :: 'n
  y_center :: 'n
  an_width :: 'n
  an_height :: 'n
  an_created_at :: time
  an_updated_at :: time

subsection \<open>Object stores\<close>

text \<open>
  An object store with \<^verbatim>\<open>keyPath: "id"\<close> and \<^verbatim>\<open>autoIncrement: true\<close>: its records, each
  carrying its key in its \<^verbatim>\<open>id\<close> field, and the current number of its key generator.
  The operations are the requests the code issues: \<^verbatim>\<open>get\<close>, \<^verbatim>\<open>getAll\<close>, \<^verbatim>\<open>getAll\<close> on an index
  with \<^verbatim>\<open>IDBKeyRange.only\<close>, \<^verbatim>\<open>delete\<close>, \<^verbatim>\<open>add\<close> of a record without a key, and \<^verbatim>\<open>put\<close> of
  a record with one.
\<close>

record 'r store =
  rows :: "'r list"
  next_key :: key

definition store_get :: "('r \<Rightarrow> key) \<Rightarrow> key \<Rightarrow> 'r store \<Rightarrow> 'r option" where
  "store_get kf k st = find (\<lambda>r. kf r = k) (rows st)"

definition store_getAll :: "'r store \<Rightarrow> 'r list" where
  "store_getAll st = rows st"

definition index_getAll :: "('r \<Rightarrow> key) \<Rightarrow> key \<Rightarrow> 'r store \<Rightarrow> 'r list" where
  "index_getAll ix v st = filter (\<lambda>r. ix r = v) (rows st)"

definition store_delete :: "('r \<Rightarrow> key) \<Rightarrow> key \<Rightarrow> 'r store \<Rightarrow> 'r store" where
  "store_delete kf k st = st\<lparr>rows := filter (\<lambda>r. kf r \<noteq> k) (rows st)\<rparr>"

definition store_add :: "(key \<Rightarrow> 'r) \<Rightarrow> 'r store \<Rightarrow> 'r store \<times> key" where
  "store_add mk st =
     (let k = next_key st in (st\<lparr>rows := rows st @ [mk k], next_key := Suc k\<rparr>, k))"

definition store_put :: "('r \<Rightarrow> key) \<Rightarrow> 'r \<Rightarrow> 'r store \<Rightarrow> 'r store" where
  "store_put kf r st =
     (if \<exists>x \<in> set (rows st). kf x = kf r
      then st\<lparr>rows := map (\<lambda>x. if kf x = kf r then r else x) (rows st)\<rparr>
      else st\<lparr>rows := insort_key kf r (rows st), next_key := max (next_key st) (Suc (kf r))\<rparr>)"

text \<open>The database \<^verbatim>\<open>bbox-studio\<close>, and its state after \<^verbatim>\<open>onUpgrade\<close> has created the stores.\<close>

record 'n db =
  projects :: "ProjectRecord store"
  images :: "'n ImageRecord store"
  annotations :: "'n Annotation store"

definition empty_store :: "'r store" where
  "empty_store = \<lparr>rows = [], next_key = 1\<rparr>"

definition empty_db :: "'n db" where
  "empty_db = \<lparr>projects = empty_store, images = empty_store, annotations = empty_store\<rparr>"

text \<open>
  In a store every key occurs once, and the key generator is ahead of all of them.
\<close>

definition wf_store :: "('r \<Rightarrow> key) \<Rightarrow> 'r store \<Rightarrow> bool" where
  "wf_store kf st \<longleftrightarrow> distinct (map kf (rows st)) \<and> (\<forall>r \<in> set (rows st). kf r < next_key st)"

definition wf_db :: "'n db \<Rightarrow> bool" where
  "wf_db s \<longleftrightarrow> wf_store p_id (projects s) \<and> wf_store im_id (images s) \<and> wf_store an_id (annotations s)"

subsection \<open>Transactions\<close>

text \<open>
  The body \<^verbatim>\<open>fn\<close> of a transaction is an \<^verbatim>\<open>async\<close> function over the stores. It ends in one
  of three ways: it returns (\<open>Done\<close>); its own code throws (\<open>Thrown\<close>), which rejects its
  promise but leaves the transaction alone; or a request fails (\<open>Failed\<close>):
  \<^verbatim>\<open>requestToPromise\<close> rejects from \<^verbatim>\<open>onerror\<close>, nothing in the body catches the rejection,
  and the failed request aborts the transaction.

  Reads of an open database succeed. Whether the storage accepts a write is not in the
  hands of the code: the budget \<open>Some n\<close> is a storage that accepts \<open>n\<close> more write
  requests and then fails the next one, or the commit if there is no next one; \<open>None\<close> is
  a storage that never fails. The state of a running transaction is the database as
  the transaction sees it, and the budget that is left.
\<close>

type_synonym budget = "nat option"

datatype ('s, 'a) outcome = Done 's 'a | Thrown error 's | Failed error

type_synonym 'n tx = "'n db \<times> budget"

definition await :: "('s, 'a) outcome \<Rightarrow> ('s \<Rightarrow> 'a \<Rightarrow> ('s, 'b) outcome) \<Rightarrow> ('s, 'b) outcome" where
  "await m f = (case m of Done t a \<Rightarrow> f t a | Thrown e t \<Rightarrow> Thrown e t | Failed e \<Rightarrow> Failed e)"

text \<open>\<^verbatim>\<open>requestToPromise\<close> on a reading and on a writing request.\<close>

definition read_request :: "('n db \<Rightarrow> 'a) \<Rightarrow> 'n tx \<Rightarrow> ('n tx, 'a) outcome" where
  "read_request f t = Done t (f (fst t))"

definition write_request :: "('n db \<Rightarrow> 'n db \<times> 'a) \<Rightarrow> 'n tx \<Rightarrow> ('n tx, 'a) outcome" where
  "write_request f t =
     (case snd t of
        None \<Rightarrow> (case f (fst t) of (d, a) \<Rightarrow> Done (d, None) a)
      | Some 0 \<Rightarrow> Failed RequestError
      | Some (Suc n) \<Rightarrow> (case f (fst t) of (d, a) \<Rightarrow> Done (d, Some n) a))"

text \<open>
  \<^verbatim>\<open>store.get(key)\<close> for a number from outside: with \<^verbatim>\<open>NaN\<close> the call of \<^verbatim>\<open>get\<close> throws
  before there is a request.
\<close>

definition get_request ::
  "(key \<Rightarrow> 'n db \<Rightarrow> 'a option) \<Rightarrow> number \<Rightarrow> 'n tx \<Rightarrow> ('n tx, 'a option) outcome" where
  "get_request f ident t =
     (case ident of
        Natural k \<Rightarrow> read_request (f k) t
      | NoNatural \<Rightarrow> Done t None
      | NaN \<Rightarrow> Thrown DataError t)"

text \<open>
  \<^verbatim>\<open>transactionDone\<close>: the transaction, left to itself, commits what it has written
  (\<^verbatim>\<open>oncomplete\<close>), or aborts and leaves the database \<open>s\<close> it started from (\<^verbatim>\<open>onabort\<close>,
  \<^verbatim>\<open>onerror\<close>).
\<close>

definition transactionDone :: "'n db \<Rightarrow> 'n tx \<Rightarrow> 'n db \<times> (error + unit)" where
  "transactionDone s t =
     (case snd t of Some 0 \<Rightarrow> (s, Inl TransactionError) | _ \<Rightarrow> (fst t, Inr ()))"

text \<open>
  \<^verbatim>\<open>withStores\<close> and \<^verbatim>\<open>withStore\<close>: open a transaction, await the body, await the
  transaction. When the body throws, \<^verbatim>\<open>transactionDone\<close> is never awaited, and nothing calls
  \<^verbatim>\<open>abort\<close>: the transaction still finishes by itself. The result pairs the database after
  the call with what the promise settles to.
\<close>

definition withStores ::
  "budget \<Rightarrow> ('n tx \<Rightarrow> ('n tx, 'a) outcome) \<Rightarrow> 'n db \<Rightarrow> 'n db \<times> (error + 'a)" where
  "withStores flt fn s =
     (case fn (s, flt) of
        Done t result \<Rightarrow>
          (case transactionDone s t of
             (s', Inl e) \<Rightarrow> (s', Inl e)
           | (s', Inr _) \<Rightarrow> (s', Inr result))
      | Thrown e t \<Rightarrow> (fst (transactionDone s t), Inl e)
      | Failed e \<Rightarrow> (s, Inl e))"

definition withStore ::
  "budget \<Rightarrow> ('n tx \<Rightarrow> ('n tx, 'a) outcome) \<Rightarrow> 'n db \<Rightarrow> 'n db \<times> (error + 'a)" where
  "withStore flt fn s = withStores flt fn s"

text \<open>
  What becomes of the transaction of a body: it aborts when one of its requests fails or
  when its commit fails, and completes otherwise, also when the body has thrown.
\<close>

definition aborts :: "'n db \<Rightarrow> ('n tx, 'a) outcome \<Rightarrow> bool" where
  "aborts s out =
     (case out of
        Done t result \<Rightarrow> isl (snd (transactionDone s t))
      | Thrown e t \<Rightarrow> isl (snd (transactionDone s t))
      | Failed e \<Rightarrow> True)"

text \<open>An \<^verbatim>\<open>await\<close> outside a transaction: a rejection ends the calling function.\<close>

definition and_then ::
  "'d \<times> (error + 'a) \<Rightarrow> ('d \<Rightarrow> 'a \<Rightarrow> 'd \<times> (error + 'b)) \<Rightarrow> 'd \<times> (error + 'b)" where
  "and_then m f = (case m of (s, Inl e) \<Rightarrow> (s, Inl e) | (s, Inr a) \<Rightarrow> f s a)"

subsection \<open>Projects\<close>

text \<open>\<^verbatim>\<open>const { root_handle: _root, ...rest } = p\<close>: the record without its directory handle.\<close>

definition strip_root_handle :: "ProjectRecord \<Rightarrow> Project" where
  "strip_root_handle p =
     \<lparr>p_id = p_id p, p_name = p_name p, p_description = p_description p,
      p_classes = p_classes p, p_created_at = p_created_at p, p_updated_at = p_updated_at p\<rparr>"

text \<open>
  \<^verbatim>\<open>sort((a, b) => new Date(b.created_at).getTime() - new Date(a.created_at).getTime())\<close>
  is the stable sort by the negated instant.
\<close>

definition getProjects :: "'n db \<Rightarrow> 'n db \<times> (error + Project list)" where
  "getProjects s =
     and_then (withStore None (read_request (\<lambda>d. store_getAll (projects d))) s)
       (\<lambda>s items. (s, Inr (sort_key (\<lambda>p. - p_created_at p) (map strip_root_handle items))))"

definition getProject :: "number \<Rightarrow> 'n db \<Rightarrow> 'n db \<times> (error + Project)" where
  "getProject ident s =
     and_then (withStore None (get_request (\<lambda>k d. store_get p_id k (projects d)) ident) s)
       (\<lambda>s item. case item of
            None \<Rightarrow> (s, Inl (Error ''Project not found''))
          | Some p \<Rightarrow> (s, Inr (strip_root_handle p)))"

record createProjectData =
  cp_name :: string
  cp_description :: "string option"
  cp_classes :: string

text \<open>
  The argument \<open>now\<close> of a call is what \<^verbatim>\<open>nowIso()\<close> returns during it. The body of the
  transaction of a function is a definition of its own, named after the function: it is the
  \<^verbatim>\<open>async\<close> function that the source hands to \<^verbatim>\<open>withStore\<close>.
\<close>

definition createProject_tx :: "(key \<Rightarrow> ProjectRecord) \<Rightarrow> 'n tx \<Rightarrow> ('n tx, key) outcome" where
  "createProject_tx record t =
     write_request (\<lambda>d. case store_add record (projects d) of
                             (st, k) \<Rightarrow> (d\<lparr>projects := st\<rparr>, k)) t"

text \<open>The record of \<^verbatim>\<open>createProject\<close>, which the store completes with the key \<open>k\<close>.\<close>

definition createProject_record :: "time \<Rightarrow> createProjectData \<Rightarrow> key \<Rightarrow> ProjectRecord" where
  "createProject_record createdAt data k =
     \<lparr>p_id = k, p_name = cp_name data, p_description = cp_description data,
      p_classes = normalizeClassesString (cp_classes data),
      p_created_at = createdAt, p_updated_at = createdAt, root_handle = None\<rparr>"

definition createProject ::
  "budget \<Rightarrow> time \<Rightarrow> createProjectData \<Rightarrow> 'n db \<Rightarrow> 'n db \<times> (error + Project)" where
  "createProject flt now data s =
     (let createdAt = now;
          record = createProject_record createdAt data
      in and_then
           (withStore flt (createProject_tx record) s)
           (\<lambda>s ident.
              (s, Inr \<lparr>p_id = ident, p_name = cp_name data, p_description = cp_description data,
                       p_classes = normalizeClassesString (cp_classes data),
                       p_created_at = createdAt, p_updated_at = createdAt\<rparr>)))"

text \<open>
  In the data of an update an absent field is \<open>None\<close>; a description can also be present
  and \<^verbatim>\<open>null\<close>.
\<close>

record updateProjectData =
  up_name :: "string option"
  up_description :: "string option option"
  up_classes :: "string option"

definition updateProject_tx ::
  "time \<Rightarrow> key \<Rightarrow> updateProjectData \<Rightarrow> 'n tx \<Rightarrow> ('n tx, Project) outcome" where
  "updateProject_tx now ident data t =
     await (read_request (\<lambda>d. store_get p_id ident (projects d)) t)
       (\<lambda>t existing. case existing of
            None \<Rightarrow> Thrown (Error ''Project not found'') t
          | Some ex \<Rightarrow>
              (let next = ex\<lparr>p_name := (case up_name data of None \<Rightarrow> p_name ex | Some n \<Rightarrow> n),
                              p_description := (case up_description data of
                                                  None \<Rightarrow> p_description ex | Some v \<Rightarrow> v),
                              p_classes := (case up_classes data of
                                              None \<Rightarrow> p_classes ex
                                            | Some c \<Rightarrow> normalizeClassesString c),
                              p_updated_at := now\<rparr>
               in await (write_request
                           (\<lambda>d. (d\<lparr>projects := store_put p_id next (projects d)\<rparr>, ())) t)
                    (\<lambda>t _. Done t (strip_root_handle next))))"

definition updateProject ::
  "budget \<Rightarrow> time \<Rightarrow> key \<Rightarrow> updateProjectData \<Rightarrow> 'n db \<Rightarrow> 'n db \<times> (error + Project)" where
  "updateProject flt now ident data s = withStore flt (updateProject_tx now ident data) s"

text \<open>The two loops of the cascade of \<^verbatim>\<open>deleteProject\<close>, the inner one first.\<close>

fun delete_annotations :: "'n Annotation list \<Rightarrow> 'n tx \<Rightarrow> ('n tx, unit) outcome" where
  "delete_annotations [] t = Done t ()"
| "delete_annotations (ann # anns) t =
     await (write_request
              (\<lambda>d. (d\<lparr>annotations := store_delete an_id (an_id ann) (annotations d)\<rparr>, ())) t)
       (\<lambda>t _. delete_annotations anns t)"

fun delete_images :: "'n ImageRecord list \<Rightarrow> 'n tx \<Rightarrow> ('n tx, unit) outcome" where
  "delete_images [] t = Done t ()"
| "delete_images (img # imgs) t =
     await (write_request (\<lambda>d. (d\<lparr>images := store_delete im_id (im_id img) (images d)\<rparr>, ())) t)
       (\<lambda>t _. await (read_request (\<lambda>d. index_getAll image_id (im_id img) (annotations d)) t)
          (\<lambda>t anns. await (delete_annotations anns t)
             (\<lambda>t _. delete_images imgs t)))"

text \<open>The value \<open>True\<close> of a result stands for \<^verbatim>\<open>{ ok: true }\<close>.\<close>

definition deleteProject_tx :: "key \<Rightarrow> 'n tx \<Rightarrow> ('n tx, unit) outcome" where
  "deleteProject_tx ident t =
     await (write_request
              (\<lambda>d. (d\<lparr>projects := store_delete p_id ident (projects d)\<rparr>, ())) t)
       (\<lambda>t _. await (read_request (\<lambda>d. index_getAll project_id ident (images d)) t)
          (\<lambda>t imgs. delete_images imgs t))"

definition deleteProject :: "budget \<Rightarrow> key \<Rightarrow> 'n db \<Rightarrow> 'n db \<times> (error + bool)" where
  "deleteProject flt ident s =
     and_then (withStores flt (deleteProject_tx ident) s) (\<lambda>s _. (s, Inr True))"

subsection \<open>Images\<close>

text \<open>The \<^verbatim>\<open>Image\<close> that \<^verbatim>\<open>getImages\<close> builds from a stored record.\<close>

definition image_view :: "'n ImageRecord \<Rightarrow> 'n Image" where
  "image_view im =
     \<lparr>im_id = im_id im, project_id = project_id im, filename = filename im,
      file_path = file_path im, im_width = im_width im, im_height = im_height im,
      im_created_at = im_created_at im\<rparr>"

definition getImages :: "key \<Rightarrow> 'n db \<Rightarrow> 'n db \<times> (error + 'n Image list)" where
  "getImages projectId s =
     and_then (withStore None (read_request (\<lambda>d. index_getAll project_id projectId (images d))) s)
       (\<lambda>s items. (s, Inr (sort_key (\<lambda>im. - im_created_at im) (map image_view items))))"

text \<open>The loop of \<^verbatim>\<open>uploadImages\<close> over the files, with the list \<^verbatim>\<open>out\<close> it fills.\<close>

fun upload_loop ::
  "key \<Rightarrow> time \<Rightarrow> File list \<Rightarrow> 'n Image list \<Rightarrow> 'n tx \<Rightarrow> ('n tx, 'n Image list) outcome" where
  "upload_loop projectId createdAt [] out t = Done t out"
| "upload_loop projectId createdAt (file # files) out t =
     (if file_name file = [] \<or> \<not> isImageFilename (file_name file)
      then upload_loop projectId createdAt files out t
      else await
             (write_request
                (\<lambda>d. case store_add
                            (\<lambda>k. \<lparr>im_id = k, project_id = projectId, filename = file_name file,
                                   file_path = file_name file, im_width = None, im_height = None,
                                   im_created_at = createdAt, blob = Some file,
                                   file_handle = None\<rparr>) (images d) of
                        (st, k) \<Rightarrow> (d\<lparr>images := st\<rparr>, k)) t)
             (\<lambda>t key. upload_loop projectId createdAt files
                (out @ [\<lparr>im_id = key, project_id = projectId, filename = file_name file,
                         file_path = file_name file, im_width = None, im_height = None,
                         im_created_at = createdAt\<rparr>]) t))"

definition uploadImages ::
  "budget \<Rightarrow> time \<Rightarrow> key \<Rightarrow> File list \<Rightarrow> 'n db \<Rightarrow> 'n db \<times> (error + 'n Image list)" where
  "uploadImages flt now projectId files s =
     withStore flt (upload_loop projectId now files []) s"

text \<open>
  \<^verbatim>\<open>walkDir\<close>: the image files below a directory, each with its path. The generator is
  consumed by one loop, so the model lists what it yields, in order.
\<close>

fun walkDir :: "fs_dir \<Rightarrow> string \<Rightarrow> (string \<times> fs_file) list"
  and walk_entries :: "(string \<times> fs_entry) list \<Rightarrow> string \<Rightarrow> (string \<times> fs_file) list" where
  "walkDir (FileSystemDirectoryHandle entries) prefix = walk_entries entries prefix"
| "walk_entries [] prefix = []"
| "walk_entries ((name, h) # entries) prefix =
     (let nextPath = (if prefix \<noteq> [] then prefix @ ''/'' @ name else name)
      in (case h of
            FileKind f \<Rightarrow> (if isImageFilename name then [(nextPath, f)] else [])
          | DirectoryKind d \<Rightarrow> walkDir d nextPath) @ walk_entries entries prefix)"

text \<open>
  What \<^verbatim>\<open>window.showDirectoryPicker\<close> does for a call: it is missing, its promise rejects
  (the user closes the dialog), or it resolves to a directory.
\<close>

datatype picker = NoPicker | PickerRejects | Picked fs_dir

text \<open>
  \<^verbatim>\<open>importImagesFromFolder\<close>, with the two instants it reads (\<open>createdAt\<close> before the
  transaction, \<open>now\<close> inside it). The body of its transaction first reads the project and
  its images and puts the project with the directory handle: that is \<open>import_tx\<close>. Then the
  body waits for the directory (\<^verbatim>\<open>for await\<close> over \<^verbatim>\<open>walkDir\<close>), and the file system is no
  request of the transaction. A transaction that is left without a pending request
  finishes by itself: it commits the put, or aborts. A later call of \<^verbatim>\<open>add\<close> on its store
  throws a \<^verbatim>\<open>TransactionInactiveError\<close>: that is what the first entry of the walk with a
  new name does, and the loop ends there.
\<close>

definition import_tx ::
  "time \<Rightarrow> fs_dir \<Rightarrow> key \<Rightarrow> 'n tx \<Rightarrow> ('n tx, string set) outcome" where
  "import_tx now dirHandle projectId t =
     await (read_request (\<lambda>d. store_get p_id projectId (projects d)) t)
       (\<lambda>t project. case project of
            None \<Rightarrow> Thrown (Error ''Project not found'') t
          | Some p \<Rightarrow>
              await (read_request (\<lambda>d. index_getAll project_id projectId (images d)) t)
                (\<lambda>t existing.
                   (let existingNames = set (map filename existing);
                        p' = p\<lparr>p_updated_at := now, root_handle := Some dirHandle\<rparr>
                    in await (write_request
                                (\<lambda>d. (d\<lparr>projects := store_put p_id p' (projects d)\<rparr>, ())) t)
                         (\<lambda>t _. Done t existingNames))))"

text \<open>The call \<^verbatim>\<open>store.add(record)\<close> on a transaction that has finished.\<close>

definition add_inactive :: "(key \<Rightarrow> 'r) \<Rightarrow> 's \<Rightarrow> ('s, key) outcome" where
  "add_inactive record t = Thrown TransactionInactiveError t"

fun import_loop ::
  "key \<Rightarrow> time \<Rightarrow> (string \<times> fs_file) list \<Rightarrow> string set \<Rightarrow> nat \<Rightarrow> 'n db \<Rightarrow> ('n db, nat) outcome" where
  "import_loop projectId createdAt [] existingNames cnt t = Done t cnt"
| "import_loop projectId createdAt (entry # entries) existingNames cnt t =
     (if fst entry \<in> existingNames
      then import_loop projectId createdAt entries existingNames cnt t
      else await
             (add_inactive
                (\<lambda>k. \<lparr>im_id = k, project_id = projectId, filename = fst entry,
                       file_path = fst entry, im_width = None, im_height = None,
                       im_created_at = createdAt, blob = None,
                       file_handle = Some (snd entry)\<rparr> :: 'n ImageRecord) t)
             (\<lambda>t _. import_loop projectId createdAt entries (insert (fst entry) existingNames)
                (cnt + 1) t))"

text \<open>
  When the loop ends without a new name the body returns, and only then \<^verbatim>\<open>withStores\<close>
  calls \<^verbatim>\<open>transactionDone\<close>, which installs the handlers \<^verbatim>\<open>oncomplete\<close>, \<^verbatim>\<open>onabort\<close> and
  \<^verbatim>\<open>onerror\<close>. The transaction has been finishing since the walk began. \<open>late\<close> says that
  its event has been dispatched before the handlers are there: no handler is ever
  called, and the promise of the call never settles, which is the result \<open>None\<close>.
  Otherwise the call settles with what the transaction did.
\<close>

definition importImagesFromFolder ::
  "budget \<Rightarrow> time \<Rightarrow> time \<Rightarrow> picker \<Rightarrow> bool \<Rightarrow> key \<Rightarrow> 'n db \<Rightarrow>
   'n db \<times> (error + nat) option" where
  "importImagesFromFolder flt createdAt now picker late projectId s =
     (case picker of
        NoPicker \<Rightarrow>
          (s, Some (Inl (Error ''Folder import requires Chrome/Edge (File System Access API)'')))
      | PickerRejects \<Rightarrow> (s, Some (Inl AbortError))
      | Picked dirHandle \<Rightarrow>
          (case import_tx now dirHandle projectId (s, flt) of
             Failed e \<Rightarrow> (s, Some (Inl e))
           | Thrown e t \<Rightarrow> (fst (transactionDone s t), Some (Inl e))
           | Done t existingNames \<Rightarrow>
               (case transactionDone s t of
                  (s', finished) \<Rightarrow>
                    (case import_loop projectId createdAt (walkDir dirHandle []) existingNames 0 s' of
                       Done _ cnt \<Rightarrow>
                         (s', if late then None
                              else Some (case finished of Inl e \<Rightarrow> Inl e | Inr _ \<Rightarrow> Inr cnt))
                     | Thrown e _ \<Rightarrow> (s', Some (Inl e))
                     | Failed e \<Rightarrow> (s', Some (Inl e))))))"

text \<open>
  \<^verbatim>\<open>getImageBlob\<close>; \<open>granted\<close> says whether the file behind a handle may be read, and
  \<^verbatim>\<open>getFile\<close> rejects when it may not.
\<close>

definition getImageBlob :: "bool \<Rightarrow> key \<Rightarrow> 'n db \<Rightarrow> 'n db \<times> (error + File)" where
  "getImageBlob granted imageId s =
     and_then (withStore None (read_request (\<lambda>d. store_get im_id imageId (images d))) s)
       (\<lambda>s image. case image of
            None \<Rightarrow> (s, Inl (Error ''Image not found''))
          | Some im \<Rightarrow>
              (case blob im of
                 Some b \<Rightarrow> (s, Inr b)
               | None \<Rightarrow>
                   (case file_handle im of
                      Some (FileSystemFileHandle f) \<Rightarrow>
                        (if granted then (s, Inr f) else (s, Inl NotAllowedError))
                    | None \<Rightarrow> (s, Inl (Error ''Image data missing'')))))"

subsection \<open>Annotations\<close>

definition getAnnotations :: "key \<Rightarrow> 'n db \<Rightarrow> 'n db \<times> (error + 'n Annotation list)" where
  "getAnnotations imageId s =
     withStore None (read_request (\<lambda>d. index_getAll image_id imageId (annotations d))) s"

record 'n annotationData =
  ad_class_id :: 'n
  ad_x_center :: 'n
  ad_y_center :: 'n
  ad_width :: 'n
  ad_height :: 'n

definition createAnnotation_tx ::
  "(key \<Rightarrow> 'n Annotation) \<Rightarrow> 'n tx \<Rightarrow> ('n tx, key) outcome" where
  "createAnnotation_tx record t =
     write_request (\<lambda>d. case store_add record (annotations d) of
                             (st, k) \<Rightarrow> (d\<lparr>annotations := st\<rparr>, k)) t"

text \<open>The record of \<^verbatim>\<open>createAnnotation\<close>, which the store completes with the key \<open>k\<close>.\<close>

definition createAnnotation_record ::
  "time \<Rightarrow> key \<Rightarrow> 'n annotationData \<Rightarrow> key \<Rightarrow> 'n Annotation" where
  "createAnnotation_record ts imageId data k =
     \<lparr>an_id = k, image_id = imageId, class_id = ad_class_id data,
      x_center = ad_x_center data, y_center = ad_y_center data,
      an_width = ad_width data, an_height = ad_height data,
      an_created_at = ts, an_updated_at = ts\<rparr>"

definition createAnnotation ::
  "budget \<Rightarrow> time \<Rightarrow> key \<Rightarrow> 'n annotationData \<Rightarrow> 'n db \<Rightarrow> 'n db \<times> (error + 'n Annotation)" where
  "createAnnotation flt now imageId data s =
     (let ts = now;
          record = createAnnotation_record ts imageId data
      in and_then
           (withStore flt (createAnnotation_tx record) s)
           (\<lambda>s ident. (s, Inr (record ident))))"

definition updateAnnotation_tx ::
  "time \<Rightarrow> key \<Rightarrow> 'n annotationData \<Rightarrow> 'n tx \<Rightarrow> ('n tx, 'n Annotation) outcome" where
  "updateAnnotation_tx now annotationId data t =
     await (read_request (\<lambda>d. store_get an_id annotationId (annotations d)) t)
       (\<lambda>t existing. case existing of
            None \<Rightarrow> Thrown (Error ''Annotation not found'') t
          | Some ex \<Rightarrow>
              (let next = ex\<lparr>class_id := ad_class_id data, x_center := ad_x_center data,
                              y_center := ad_y_center data, an_width := ad_width data,
                              an_height := ad_height data, an_updated_at := now\<rparr>
               in await (write_request
                           (\<lambda>d. (d\<lparr>annotations := store_put an_id next (annotations d)\<rparr>, ())) t)
                    (\<lambda>t _. Done t next)))"

definition updateAnnotation ::
  "budget \<Rightarrow> time \<Rightarrow> key \<Rightarrow> 'n annotationData \<Rightarrow> 'n db \<Rightarrow> 'n db \<times> (error + 'n Annotation)" where
  "updateAnnotation flt now annotationId data s =
     withStore flt (updateAnnotation_tx now annotationId data) s"

definition deleteAnnotation_tx :: "key \<Rightarrow> 'n tx \<Rightarrow> ('n tx, unit) outcome" where
  "deleteAnnotation_tx annotationId t =
     write_request
       (\<lambda>d. (d\<lparr>annotations := store_delete an_id annotationId (annotations d)\<rparr>, ())) t"

definition deleteAnnotation :: "budget \<Rightarrow> key \<Rightarrow> 'n db \<Rightarrow> 'n db \<times> (error + bool)" where
  "deleteAnnotation flt annotationId s =
     and_then (withStore flt (deleteAnnotation_tx annotationId) s) (\<lambda>s _. (s, Inr True))"

subsection \<open>Export\<close>

text \<open>
  The archive under construction (\<^verbatim>\<open>JSZip\<close>, version 3, the one with \<^verbatim>\<open>generateAsync\<close>): its
  entries, files with their content and folders, by name, in the order of their first
  insertion. \<^verbatim>\<open>zip.file(name, content)\<close> first adds the folders above \<open>name\<close> that are
  missing (\<^verbatim>\<open>createFolders\<close> is on by default), the outermost first, then puts the file under
  its name, in the place of an entry that is already there.
\<close>

datatype zip_entry = ZipFile string | ZipFolder

type_synonym zip = "(string \<times> zip_entry) list"

definition zip_put :: "string \<Rightarrow> zip_entry \<Rightarrow> zip \<Rightarrow> zip" where
  "zip_put name e z =
     (if name \<in> fst ` set z
      then map (\<lambda>(n, c). if n = name then (n, e) else (n, c)) z
      else z @ [(name, e)])"

definition forceTrailingSlash :: "string \<Rightarrow> string" where
  "forceTrailingSlash path = (if path \<noteq> [] \<and> last path = CHR ''/'' then path else path @ ''/'')"

text \<open>
  \<^verbatim>\<open>parentFolder\<close>: the path without a slash at its end, up to its last slash; empty when
  there is no slash, or none but the first character.
\<close>

definition parentFolder :: "string \<Rightarrow> string" where
  "parentFolder path =
     (let p = (if path \<noteq> [] \<and> last path = CHR ''/'' then butlast path else path)
      in if CHR ''/'' \<in> set p then rev (tl (dropWhile (\<lambda>c. c \<noteq> CHR ''/'') (rev p))) else [])"

function folderAdd :: "string \<Rightarrow> zip \<Rightarrow> zip" where
  "folderAdd name z =
     (if forceTrailingSlash name \<in> fst ` set z then z
      else if parentFolder (forceTrailingSlash name) = []
        then zip_put (forceTrailingSlash name) ZipFolder z
        else zip_put (forceTrailingSlash name) ZipFolder
               (folderAdd (parentFolder (forceTrailingSlash name)) z))"
  by pat_completeness auto

termination folderAdd
proof (relation "measure (\<lambda>(name, z). length name)")
  show "wf (measure (\<lambda>(name, z :: zip). length name))" by simp
next
  fix name :: string and z :: zip
  assume ne: "parentFolder (forceTrailingSlash name) \<noteq> []"
  have shorter: "length (tl (dropWhile P xs)) < length xs" if "xs \<noteq> []"
    for P and xs :: string
  proof -
    from that have "0 < length xs" by simp
    moreover have "length (dropWhile P xs) \<le> length xs" by (rule length_dropWhile_le)
    moreover have "length (tl (dropWhile P xs)) = length (dropWhile P xs) - 1" by simp
    ultimately show ?thesis by arith
  qed
  have "length (parentFolder (forceTrailingSlash name)) < length name"
  proof (cases "name \<noteq> [] \<and> last name = CHR ''/''")
    case True
    let ?p = "butlast name"
    from True have f: "forceTrailingSlash name = name" by (simp add: forceTrailingSlash_def)
    with ne True have s: "CHR ''/'' \<in> set ?p"
      by (auto simp: parentFolder_def Let_def split: if_splits)
    then have "?p \<noteq> []" by auto
    then have "length (tl (dropWhile (\<lambda>c. c \<noteq> CHR ''/'') (rev ?p))) < length (rev ?p)"
      by (intro shorter) simp
    with True f s show ?thesis by (simp add: parentFolder_def Let_def)
  next
    case False
    then have f: "forceTrailingSlash name = name @ ''/''" by (auto simp: forceTrailingSlash_def)
    with ne have s: "CHR ''/'' \<in> set name"
      by (auto simp: parentFolder_def Let_def split: if_splits)
    then have "name \<noteq> []" by auto
    then have "length (tl (dropWhile (\<lambda>c. c \<noteq> CHR ''/'') (rev name))) < length (rev name)"
      by (intro shorter) simp
    with f s show ?thesis by (simp add: parentFolder_def Let_def)
  qed
  then show "((parentFolder (forceTrailingSlash name), z), name, z) \<in> measure (\<lambda>(name, z). length name)"
    by simp
qed

declare folderAdd.simps [simp del]

definition zip_file :: "string \<Rightarrow> string \<Rightarrow> zip \<Rightarrow> zip" where
  "zip_file name content z =
     zip_put name (ZipFile content)
       (if parentFolder name = [] then z else folderAdd (parentFolder name) z)"

text \<open>
  One line of a label file. The template literal turns each number into a string; \<open>fmt\<close>
  is that conversion.
\<close>

definition label_line :: "('n \<Rightarrow> string) \<Rightarrow> 'n Annotation \<Rightarrow> string" where
  "label_line fmt a =
     fmt (class_id a) @ '' '' @ fmt (x_center a) @ '' '' @ fmt (y_center a) @ '' '' @
     fmt (an_width a) @ '' '' @ fmt (an_height a)"

definition label_name :: "'n Image \<Rightarrow> string" where
  "label_name img = ''labels/'' @ neurovaStem (filename img) @ ''.txt''"

definition label_text :: "('n \<Rightarrow> string) \<Rightarrow> 'n Annotation list \<Rightarrow> string" where
  "label_text fmt anns = join_str [CHR 0x0A] (map (label_line fmt) anns) @ [CHR 0x0A]"

fun export_loop ::
  "('n \<Rightarrow> string) \<Rightarrow> 'n Image list \<Rightarrow> zip \<Rightarrow> 'n db \<Rightarrow> 'n db \<times> (error + zip)" where
  "export_loop fmt [] z s = (s, Inr z)"
| "export_loop fmt (img # imgs) z s =
     and_then (getAnnotations (im_id img) s)
       (\<lambda>s anns. if anns = [] then export_loop fmt imgs z s
          else export_loop fmt imgs (zip_file (label_name img) (label_text fmt anns) z) s)"

definition classes_text :: "string \<Rightarrow> string" where
  "classes_text cls =
     (let classes = filter (\<lambda>c. c \<noteq> []) (split_str CHR '','' (normalizeClassesString cls))
      in join_str [CHR 0x0A] classes @ (if classes \<noteq> [] then [CHR 0x0A] else []))"

text \<open>
  \<^verbatim>\<open>exportNeurova\<close>. Where the project has been found, the number \<^verbatim>\<open>projectId\<close> that goes on
  to \<^verbatim>\<open>getImages\<close> is the key of the project.
\<close>

definition exportNeurova :: "('n \<Rightarrow> string) \<Rightarrow> number \<Rightarrow> 'n db \<Rightarrow> 'n db \<times> (error + zip)" where
  "exportNeurova fmt projectId s =
     and_then (withStore None (get_request (\<lambda>k d. store_get p_id k (projects d)) projectId) s)
       (\<lambda>s project. case project of
            None \<Rightarrow> (s, Inl (Error ''Project not found''))
          | Some p \<Rightarrow>
              and_then (getImages (p_id p) s)
                (\<lambda>s imgs. export_loop fmt imgs (zip_file ''classes.txt'' (classes_text (p_classes p)) []) s))"

subsection \<open>Housekeeping\<close>

text \<open>
  \<^verbatim>\<open>clearAllLocalData\<close> asks the browser to delete the database and resolves whether or
  not that happens; \<open>deleted\<close> says whether it did. \<^verbatim>\<open>requestPersistentStorage\<close> reports what
  the browser answers.
\<close>

definition clearAllLocalData :: "bool \<Rightarrow> 'n db \<Rightarrow> 'n db \<times> (error + unit)" where
  "clearAllLocalData deleted s = (if deleted then empty_db else s, Inr ())"

definition requestPersistentStorage :: "bool \<Rightarrow> 'n db \<Rightarrow> 'n db \<times> (error + bool)" where
  "requestPersistentStorage persisted s = (s, Inr persisted)"

subsection \<open>The exported functions as one interface\<close>

text \<open>
  A call of one of the functions that the storage module exports, with its arguments and
  with what the environment does during the call (the storage budget, the clock, the
  directory picker, the order of events, permissions). The result of a call is the
  database after it and what its promise settles to: a value, an error, or \<open>None\<close> when
  it never settles.
\<close>

datatype 'n api =
    GetProjects
  | GetProject number
  | CreateProject budget time createProjectData
  | UpdateProject budget time key updateProjectData
  | DeleteProject budget key
  | GetImages key
  | UploadImages budget time key "File list"
  | ImportImagesFromFolder budget time time picker bool key
  | GetImageBlob bool key
  | GetAnnotations key
  | CreateAnnotation budget time key "'n annotationData"
  | UpdateAnnotation budget time key "'n annotationData"
  | DeleteAnnotation budget key
  | ExportNeurova number
  | ClearAllLocalData bool
  | RequestPersistentStorage bool

datatype 'n response =
    Projects "Project list"
  | AProject Project
  | Ok bool
  | Images "'n Image list"
  | Imported nat
  | ABlob File
  | Annotations "'n Annotation list"
  | AnAnnotation "'n Annotation"
  | Archive zip
  | Nothing
  | Persisted bool

definition returning :: "('a \<Rightarrow> 'b) \<Rightarrow> 'd \<times> (error + 'a) \<Rightarrow> 'd \<times> (error + 'b) option" where
  "returning f m = (fst m, Some (map_sum (\<lambda>e. e) f (snd m)))"

fun run ::
  "('n \<Rightarrow> string) \<Rightarrow> 'n api \<Rightarrow> 'n db \<Rightarrow> 'n db \<times> (error + 'n response) option" where
  "run fmt GetProjects s = returning Projects (getProjects s)"
| "run fmt (GetProject k) s = returning AProject (getProject k s)"
| "run fmt (CreateProject flt now data) s = returning AProject (createProject flt now data s)"
| "run fmt (UpdateProject flt now k data) s = returning AProject (updateProject flt now k data s)"
| "run fmt (DeleteProject flt k) s = returning Ok (deleteProject flt k s)"
| "run fmt (GetImages k) s = returning Images (getImages k s)"
| "run fmt (UploadImages flt now k files) s = returning Images (uploadImages flt now k files s)"
| "run fmt (ImportImagesFromFolder flt createdAt now picker late k) s =
     (case importImagesFromFolder flt createdAt now picker late k s of
        (d, r) \<Rightarrow> (d, map_option (map_sum (\<lambda>e. e) Imported) r))"
| "run fmt (GetImageBlob granted k) s = returning ABlob (getImageBlob granted k s)"
| "run fmt (GetAnnotations k) s = returning Annotations (getAnnotations k s)"
| "run fmt (CreateAnnotation flt now k data) s =
     returning AnAnnotation (createAnnotation flt now k data s)"
| "run fmt (UpdateAnnotation flt now k data) s =
     returning AnAnnotation (updateAnnotation flt now k data s)"
| "run fmt (DeleteAnnotation flt k) s = returning Ok (deleteAnnotation flt k s)"
| "run fmt (ExportNeurova k) s = returning Archive (exportNeurova fmt k s)"
| "run fmt (ClearAllLocalData deleted) s = returning (\<lambda>_. Nothing) (clearAllLocalData deleted s)"
| "run fmt (RequestPersistentStorage persisted) s =
     returning Persisted (requestPersistentStorage persisted s)"

text \<open>The databases that calls of the interface can produce from the empty one.\<close>

inductive reachable :: "('n \<Rightarrow> string) \<Rightarrow> 'n db \<Rightarrow> bool" for fmt :: "'n \<Rightarrow> string" where
  initial: "reachable fmt empty_db"
| call: "reachable fmt s \<Longrightarrow> reachable fmt (fst (run fmt a s))"

section \<open>Notions for the proofs\<close>

text \<open>
  An invariant of a transaction body: from a database in \<open>I\<close> the body either returns with
  a database in \<open>I\<close> or has a request fail; it does not throw.
\<close>

definition tx_keeps :: "('n db \<Rightarrow> bool) \<Rightarrow> ('n tx \<Rightarrow> ('n tx, 'a) outcome) \<Rightarrow> bool" where
  "tx_keeps I fn \<longleftrightarrow>
     (\<forall>t. I (fst t) \<longrightarrow>
        (case fn t of Done t' a \<Rightarrow> I (fst t') | Thrown e t' \<Rightarrow> False | Failed e \<Rightarrow> True))"

text \<open>A store without the records that satisfy \<open>P\<close>.\<close>

definition without_rows :: "('r \<Rightarrow> bool) \<Rightarrow> 'r store \<Rightarrow> 'r store" where
  "without_rows P st = st\<lparr>rows := filter (\<lambda>r. \<not> P r) (rows st)\<rparr>"

text \<open>
  Every stored class list is normalised. No image record of \<open>s\<close> has changed in \<open>d\<close>: a
  record of \<open>d\<close> is a record of \<open>s\<close>, or sits under a key that \<open>s\<close> had not generated yet.
\<close>

definition classes_ok :: "'n db \<Rightarrow> bool" where
  "classes_ok d \<longleftrightarrow>
     (\<forall>p \<in> set (rows (projects d)). normalizeClassesString (p_classes p) = p_classes p)"

definition images_kept :: "'n db \<Rightarrow> 'n db \<Rightarrow> bool" where
  "images_kept s d \<longleftrightarrow>
     (\<forall>r \<in> set (rows (images d)). r \<in> set (rows (images s)) \<or> next_key (images s) \<le> im_id r)"

definition sound :: "'n db \<Rightarrow> 'n db \<Rightarrow> bool" where
  "sound s d \<longleftrightarrow>
     wf_db d \<and> classes_ok d \<and> next_key (images s) \<le> next_key (images d) \<and> images_kept s d"

text \<open>A small database: two projects, three images, four annotations (one of them orphaned).\<close>

definition demo_project :: "key \<Rightarrow> string \<Rightarrow> time \<Rightarrow> ProjectRecord" where
  "demo_project k cls t =
     \<lparr>p_id = k, p_name = ''p'', p_description = None, p_classes = cls,
      p_created_at = t, p_updated_at = t, root_handle = None\<rparr>"

definition demo_image :: "key \<Rightarrow> key \<Rightarrow> string \<Rightarrow> time \<Rightarrow> int ImageRecord" where
  "demo_image k p name t =
     \<lparr>im_id = k, project_id = p, filename = name, file_path = name, im_width = None,
      im_height = None, im_created_at = t,
      blob = Some \<lparr>file_name = name, file_data = []\<rparr>, file_handle = None\<rparr>"

definition demo_annotation :: "key \<Rightarrow> key \<Rightarrow> int \<Rightarrow> int Annotation" where
  "demo_annotation k i c =
     \<lparr>an_id = k, image_id = i, class_id = c, x_center = 1, y_center = 2, an_width = 3,
      an_height = 4, an_created_at = 0, an_updated_at = 0\<rparr>"

definition demo_db :: "int db" where
  "demo_db =
     \<lparr>projects = \<lparr>rows = [demo_project 1 ''cat,dog'' 10, demo_project 2 [] 20], next_key = 3\<rparr>,
      images = \<lparr>rows = [demo_image 1 1 ''a/x.jpg'' 10, demo_image 2 2 ''y.png'' 30,
                        demo_image 3 1 ''x.png'' 20], next_key = 4\<rparr>,
      annotations = \<lparr>rows = [demo_annotation 1 1 0, demo_annotation 2 2 1,
                             demo_annotation 3 3 1, demo_annotation 4 9 0], next_key = 5\<rparr>\<rparr>"

text \<open>A first call on the empty database, and a conversion of numbers for the examples.\<close>

definition demo_create :: "int api" where
  "demo_create =
     CreateProject None 5 \<lparr>cp_name = ''birds'', cp_description = None, cp_classes = '' owl , ,tit,''\<rparr>"

definition demo_fmt :: "int \<Rightarrow> string" where
  "demo_fmt n =
     (if n = 0 then ''0'' else if n = 1 then ''1'' else if n = 2 then ''2''
      else if n = 3 then ''3'' else if n = 4 then ''4'' else ''n'')"

text \<open>
  Claim C5 as the specification states it: the error is \<^verbatim>\<open>Project not found\<close> exactly when
  no project record has the key.
\<close>

definition getProject_as_claimed :: "number \<Rightarrow> 'n db \<Rightarrow> bool" where
  "getProject_as_claimed ident s \<longleftrightarrow>
     (snd (getProject ident s) = Inl (Error ''Project not found'')) =
     (ident \<notin> Natural ` p_id ` set (rows (projects s)))"

text \<open>
  What the specification says of an uploaded file name: it ends, up to the case of its
  letters, with one of seven extensions. And the record that \<open>uploadImages\<close> stores for a
  file under a key.
\<close>

definition image_extensions :: "string list" where
  "image_extensions = [''.jpg'', ''.jpeg'', ''.png'', ''.webp'', ''.gif'', ''.bmp'', ''.avif'']"

definition has_image_extension :: "string \<Rightarrow> bool" where
  "has_image_extension name \<longleftrightarrow>
     (\<exists>ext \<in> set image_extensions. \<exists>stem suf. name = stem @ suf \<and> toLowerCase suf = ext)"

definition uploaded_record :: "key \<Rightarrow> time \<Rightarrow> key \<Rightarrow> File \<Rightarrow> 'n ImageRecord" where
  "uploaded_record projectId createdAt k file =
     \<lparr>im_id = k, project_id = projectId, filename = file_name file, file_path = file_name file,
      im_width = None, im_height = None, im_created_at = createdAt, blob = Some file,
      file_handle = None\<rparr>"

definition demo_files :: "File list" where
  "demo_files =
     [\<lparr>file_name = ''A.JPG'', file_data = ''1''\<rparr>, \<lparr>file_name = ''notes.txt'', file_data = ''2''\<rparr>,
      \<lparr>file_name = [], file_data = ''3''\<rparr>, \<lparr>file_name = ''d/b.Png'', file_data = ''4''\<rparr>]"



text \<open>
  The transaction of a call of a mutating function on the database \<open>s\<close>: the way the body
  ends, its result left out.
\<close>

definition forget :: "('s, 'a) outcome \<Rightarrow> ('s, unit) outcome" where
  "forget out = (case out of Done t a \<Rightarrow> Done t () | Thrown e t \<Rightarrow> Thrown e t | Failed e \<Rightarrow> Failed e)"






text \<open>
  A transaction body that returns under some budget returns the same, with the same
  writes, when the storage never fails.
\<close>

definition budget_free :: "('n tx \<Rightarrow> ('n tx, 'a) outcome) \<Rightarrow> bool" where
  "budget_free fn \<longleftrightarrow>
     (\<forall>d b d' b' a. fn (d, b) = Done (d', b') a \<longrightarrow> fn (d, None) = Done (d', None) a)"

text \<open>
  A database made by calls of the interface alone: a project, two images uploaded in one
  call whose names differ in the extension only, and one annotation for each image.
\<close>

definition collision_calls :: "int api list" where
  "collision_calls =
     [CreateProject None 1 \<lparr>cp_name = ''p'', cp_description = None, cp_classes = ''cat,dog''\<rparr>,
      UploadImages None 2 1 [\<lparr>file_name = ''x.jpg'', file_data = ''1''\<rparr>,
                             \<lparr>file_name = ''x.png'', file_data = ''2''\<rparr>],
      CreateAnnotation None 3 1 \<lparr>ad_class_id = 0, ad_x_center = 1, ad_y_center = 2,
                                 ad_width = 3, ad_height = 4\<rparr>,
      CreateAnnotation None 4 2 \<lparr>ad_class_id = 1, ad_x_center = 4, ad_y_center = 3,
                                 ad_width = 2, ad_height = 1\<rparr>]"

definition collision_db :: "int db" where
  "collision_db = foldl (\<lambda>s a. fst (run demo_fmt a s)) empty_db collision_calls"












section \<open>Properties of the canvas\<close>

lemma box_hit_inside: "box_hit x y b = inside_rect x y b"
  by (auto simp: box_hit_def inside_rect_def Let_def)

lemma hit_loop_Some:
  "hit_loop x y boxes n = Some i \<longleftrightarrow>
     i < n \<and> box_hit x y (boxes ! i) \<and> (\<forall>j. i < j \<and> j < n \<longrightarrow> \<not> box_hit x y (boxes ! j))"
proof (induction n)
  case 0
  show ?case by simp
next
  case (Suc n)
  show ?case
  proof (cases "box_hit x y (boxes ! n)")
    case True
    have "i = n" if "i < Suc n" and "\<forall>j. i < j \<and> j < Suc n \<longrightarrow> \<not> box_hit x y (boxes ! j)"
    proof (rule ccontr)
      assume "i \<noteq> n"
      with that(1) have "i < n" by simp
      with that(2) True show False by auto
    qed
    with True show ?thesis by auto
  next
    case False
    have "(\<forall>j. i < j \<and> j < Suc n \<longrightarrow> \<not> box_hit x y (boxes ! j)) \<longleftrightarrow>
          (\<forall>j. i < j \<and> j < n \<longrightarrow> \<not> box_hit x y (boxes ! j))" if "i < n"
      using False less_Suc_eq by auto
    moreover have "i \<noteq> n" if "box_hit x y (boxes ! i)"
      using that False by auto
    ultimately show ?thesis
      using False Suc.IH by (auto simp: less_Suc_eq)
  qed
qed

lemma hit_loop_None:
  "hit_loop x y boxes n = None \<longleftrightarrow> (\<forall>j < n. \<not> box_hit x y (boxes ! j))"
  by (induction n) (auto simp: less_Suc_eq)

text \<open>
  Claim C6. For every point and every list of boxes, \<open>hitTestBoxIndex\<close> returns the largest
  index whose box contains the point (boundary inclusive, with the corners taken by
  \<open>min\<close> and \<open>max\<close>, so that a negative width or height is handled), and \<^verbatim>\<open>null\<close> exactly
  when no box contains it.
\<close>

theorem hitTestBoxIndex_topmost:
  "(hitTestBoxIndex x y boxes = Some i \<longleftrightarrow>
      i < length boxes \<and> inside_rect x y (boxes ! i) \<and>
      (\<forall>j. i < j \<and> j < length boxes \<longrightarrow> \<not> inside_rect x y (boxes ! j))) \<and>
   (hitTestBoxIndex x y boxes = None \<longleftrightarrow>
      (\<forall>j < length boxes. \<not> inside_rect x y (boxes ! j)))"
  unfolding hitTestBoxIndex_def hit_loop_Some hit_loop_None box_hit_inside by simp

theorem hitTestBoxIndex_topmost_witness:
  "hitTestBoxIndex (1::int) 1
     [\<lparr>box_id = None, classId = 0, box_x = 0, box_y = 0, box_width = 2, box_height = 2\<rparr>,
      \<lparr>box_id = None, classId = 1, box_x = 3, box_y = 3, box_width = -4, box_height = -4\<rparr>,
      \<lparr>box_id = None, classId = 0, box_x = 5, box_y = 5, box_width = 1, box_height = 1\<rparr>] = Some 1 \<and>
   hitTestBoxIndex (9::int) 9
     [\<lparr>box_id = None, classId = 0, box_x = 0, box_y = 0, box_width = 2, box_height = 2\<rparr>] = None"
proof -
  let ?bs = "[\<lparr>box_id = None, classId = 0, box_x = 0::int, box_y = 0, box_width = 2, box_height = 2\<rparr>,
      \<lparr>box_id = None, classId = 1, box_x = 3, box_y = 3, box_width = -4, box_height = -4\<rparr>,
      \<lparr>box_id = None, classId = 0, box_x = 5, box_y = 5, box_width = 1, box_height = 1\<rparr>]"
  let ?cs = "[\<lparr>box_id = None, classId = 0, box_x = 0::int, box_y = 0, box_width = 2, box_height = 2\<rparr>]"
  have a: "(1::nat) < length ?bs \<and> inside_rect (1::int) 1 (?bs ! 1) \<and>
      (\<forall>j. 1 < j \<and> j < length ?bs \<longrightarrow> \<not> inside_rect 1 1 (?bs ! j))"
    by (auto simp: inside_rect_def less_Suc_eq numeral_3_eq_3)
  have b: "\<forall>j < length ?cs. \<not> inside_rect (9::int) 9 (?cs ! j)"
    by (simp add: inside_rect_def)
  from a b hitTestBoxIndex_topmost [of 1 1 ?bs 1] hitTestBoxIndex_topmost [of 9 9 ?cs 0]
  show ?thesis by blast
qed

section \<open>Properties of the string functions\<close>

lemma split_str_ne: "split_str sep s \<noteq> []"
  by (induction s) (auto split: list.splits)

lemma split_str_no_sep: "seg \<in> set (split_str sep s) \<Longrightarrow> sep \<notin> set seg"
  by (induction s arbitrary: seg) (auto split: list.splits if_splits)

lemma split_join:
  "segs \<noteq> [] \<Longrightarrow> \<forall>seg \<in> set segs. sep \<notin> set seg \<Longrightarrow> split_str sep (join_str [sep] segs) = segs"
proof (induction "[sep]" segs rule: join_str.induct)
  case 1
  then show ?case by simp
next
  case (2 s)
  then show ?case by (induction s) (auto split: list.splits)
next
  case (3 s t ts)
  then have IH: "split_str sep (join_str [sep] (t # ts)) = t # ts" by simp
  from 3(3) have "sep \<notin> set s" by simp
  then show ?case using IH by (induction s) (auto split: list.splits)
qed

lemma dropWhile_last:
  "xs \<noteq> [] \<Longrightarrow> \<not> P (last xs) \<Longrightarrow> dropWhile P xs \<noteq> [] \<and> last (dropWhile P xs) = last xs"
  by (induction xs) (auto split: if_splits)

lemma trim_hd: "trim s \<noteq> [] \<Longrightarrow> \<not> is_white_space (hd (trim s))"
proof -
  assume ne: "trim s \<noteq> []"
  let ?t = "dropWhile is_white_space s"
  from ne have t: "?t \<noteq> []" by (auto simp: trim_def dest: set_dropWhileD)
  then have h: "\<not> is_white_space (hd ?t)" by (rule hd_dropWhile)
  then have "\<not> is_white_space (last (rev ?t))" using t by (simp add: last_rev)
  with t have l: "last (dropWhile is_white_space (rev ?t)) = last (rev ?t)"
    and n: "dropWhile is_white_space (rev ?t) \<noteq> []"
    using dropWhile_last [of "rev ?t" is_white_space] by auto
  have "hd (trim s) = last (dropWhile is_white_space (rev ?t))"
    using n by (simp add: trim_def hd_rev)
  also have "\<dots> = hd ?t" using l t by (simp add: last_rev)
  finally show ?thesis using h by simp
qed

lemma trim_last: "trim s \<noteq> [] \<Longrightarrow> \<not> is_white_space (last (trim s))"
proof -
  assume ne: "trim s \<noteq> []"
  let ?u = "dropWhile is_white_space (rev (dropWhile is_white_space s))"
  from ne have "?u \<noteq> []" by (simp add: trim_def)
  then have "\<not> is_white_space (hd ?u)" by (rule hd_dropWhile)
  then show ?thesis using \<open>?u \<noteq> []\<close> by (simp add: trim_def last_rev)
qed

lemma trim_fixed:
  "trim s = s \<longleftrightarrow> s = [] \<or> (\<not> is_white_space (hd s) \<and> \<not> is_white_space (last s))"
proof
  assume "trim s = s"
  then show "s = [] \<or> (\<not> is_white_space (hd s) \<and> \<not> is_white_space (last s))"
    using trim_hd [of s] trim_last [of s] by auto
next
  assume a: "s = [] \<or> (\<not> is_white_space (hd s) \<and> \<not> is_white_space (last s))"
  show "trim s = s"
  proof (cases "s = []")
    case True
    then show ?thesis by (simp add: trim_def)
  next
    case False
    with a have h: "\<not> is_white_space (hd s)" and l: "\<not> is_white_space (last s)" by auto
    from False h have 1: "dropWhile is_white_space s = s" by (cases s) auto
    from False l have "\<not> is_white_space (hd (rev s))" by (simp add: hd_rev)
    with False have 2: "dropWhile is_white_space (rev s) = rev s" by (cases "rev s") auto
    show ?thesis by (simp add: trim_def 1 2)
  qed
qed

lemma trim_idem: "trim (trim s) = trim s"
  using trim_hd [of s] trim_last [of s] by (auto simp: trim_fixed)

lemma trim_no_sep: "sep \<notin> set s \<Longrightarrow> sep \<notin> set (trim s)"
  by (auto simp: trim_def dest!: set_dropWhileD)

lemma class_segments_props:
  "seg \<in> set (class_segments v) \<Longrightarrow> seg \<noteq> [] \<and> trim seg = seg \<and> CHR '','' \<notin> set seg"
  by (auto simp: class_segments_def trim_idem dest: split_str_no_sep trim_no_sep)

lemma class_segments_join:
  assumes "\<forall>seg \<in> set segs. seg \<noteq> [] \<and> trim seg = seg \<and> CHR '','' \<notin> set seg"
  shows "class_segments (join_str '','' segs) = segs"
proof (cases "segs = []")
  case True
  then show ?thesis by (simp add: class_segments_def trim_def)
next
  case False
  with assms have "split_str CHR '','' (join_str '','' segs) = segs"
    by (intro split_join) auto
  moreover from assms have "map trim segs = segs" by (induction segs) auto
  moreover from assms have "filter (\<lambda>c. c \<noteq> []) segs = segs" by (induction segs) auto
  ultimately show ?thesis by (simp add: class_segments_def)
qed

lemma normalize_idem: "normalizeClassesString (normalizeClassesString v) = normalizeClassesString v"
proof -
  have n: "\<And>w. normalizeClassesString w = join_str '','' (class_segments w)"
    by (simp add: normalizeClassesString_def class_segments_def)
  have "class_segments (join_str '','' (class_segments v)) = class_segments v"
    by (rule class_segments_join) (auto dest: class_segments_props)
  then show ?thesis by (simp add: n)
qed

section \<open>Transactions, stores and invariants\<close>

lemma keepsD:
  "tx_keeps I fn \<Longrightarrow> I (fst t) \<Longrightarrow>
   (case fn t of Done t' a \<Rightarrow> I (fst t') | Thrown e t' \<Rightarrow> False | Failed e \<Rightarrow> True)"
  unfolding tx_keeps_def by blast

lemma keepsI:
  "(\<And>t. I (fst t) \<Longrightarrow>
      (case fn t of Done t' a \<Rightarrow> I (fst t') | Thrown e t' \<Rightarrow> False | Failed e \<Rightarrow> True)) \<Longrightarrow>
   tx_keeps I fn"
  unfolding tx_keeps_def by blast

lemma keeps_done: "tx_keeps I (\<lambda>t. Done t a)"
  by (simp add: tx_keeps_def)

lemma keeps_read: "tx_keeps I (read_request f)"
  by (simp add: tx_keeps_def read_request_def)

lemma keeps_write: "(\<And>d. I d \<Longrightarrow> I (fst (f d))) \<Longrightarrow> tx_keeps I (write_request f)"
  by (auto simp: tx_keeps_def write_request_def case_prod_beta split: option.splits nat.splits)

lemma keeps_await:
  assumes "tx_keeps I m" and "\<And>a. tx_keeps I (\<lambda>t. f t a)"
  shows "tx_keeps I (\<lambda>t. await (m t) f)"
proof (rule keepsI)
  fix t :: "'a tx"
  assume i: "I (fst t)"
  from assms(1) i have
    m: "case m t of Done t' a \<Rightarrow> I (fst t') | Thrown e t' \<Rightarrow> False | Failed e \<Rightarrow> True"
    by (rule keepsD)
  show "case await (m t) f of Done t' a \<Rightarrow> I (fst t') | Thrown e t' \<Rightarrow> False | Failed e \<Rightarrow> True"
  proof (cases "m t")
    case (Done t' a)
    with m have "I (fst t')" by simp
    with keepsD [OF assms(2) [of a], of t'] show ?thesis
      by (simp add: await_def Done)
  next
    case (Thrown e t')
    with m show ?thesis by simp
  next
    case (Failed e)
    then show ?thesis by (simp add: await_def)
  qed
qed

lemma keeps_cases:
  assumes "tx_keeps I fn" and "I d"
  obtains (finished) d' b' a where "fn (d, b) = Done (d', b') a" and "I d'"
        | (failed) e where "fn (d, b) = Failed e"
proof (cases "fn (d, b)")
  case (Done t a)
  with keepsD [OF assms(1), of "(d, b)"] assms(2) have "I (fst t)" by simp
  with Done show ?thesis by (cases t) (auto intro: finished)
next
  case (Thrown e t)
  with keepsD [OF assms(1), of "(d, b)"] assms(2) show ?thesis by simp
next
  case (Failed e)
  then show ?thesis by (rule failed)
qed

lemma withStores_keeps:
  assumes "tx_keeps I fn" and "I s"
  shows "I (fst (withStores flt fn s))"
  using assms(1,2)
proof (cases rule: keeps_cases [where b = flt])
  case (finished d' b' a)
  with \<open>I s\<close> show ?thesis
    by (auto simp: withStores_def transactionDone_def split: option.splits nat.splits)
next
  case (failed e)
  with \<open>I s\<close> show ?thesis by (simp add: withStores_def)
qed

lemma withStores_atomic:
  assumes "tx_keeps I fn" and "I s" and "snd (withStores flt fn s) = Inl e"
  shows "fst (withStores flt fn s) = s"
  using assms(1,2)
proof (cases rule: keeps_cases [where b = flt])
  case (finished d' b' a)
  with assms(3) show ?thesis
    by (auto simp: withStores_def transactionDone_def split: option.splits nat.splits)
next
  case (failed e)
  then show ?thesis by (simp add: withStores_def)
qed

lemma wf_store_delete: "wf_store kf st \<Longrightarrow> wf_store kf (store_delete kf k st)"
  by (auto simp: wf_store_def store_delete_def distinct_map_filter)

lemma wf_store_add: "wf_store kf st \<Longrightarrow> (\<And>k. kf (mk k) = k) \<Longrightarrow> wf_store kf (fst (store_add mk st))"
  by (fastforce simp: wf_store_def store_add_def Let_def)

lemma distinct_map_insort_key:
  "kf r \<notin> kf ` set xs \<Longrightarrow> distinct (map kf xs) \<Longrightarrow> distinct (map kf (insort_key kf r xs))"
  by (induction xs) (auto simp: set_insort_key)

lemma wf_store_put: "wf_store kf st \<Longrightarrow> wf_store kf (store_put kf r st)"
proof -
  assume wf: "wf_store kf st"
  show ?thesis
  proof (cases "\<exists>x \<in> set (rows st). kf x = kf r")
    case True
    have "map kf (map (\<lambda>x. if kf x = kf r then r else x) (rows st)) = map kf (rows st)"
      by (induction "rows st") auto
    with wf True show ?thesis
      by (auto simp: wf_store_def store_put_def simp del: map_map)
  next
    case False
    with wf show ?thesis
      by (auto simp: wf_store_def store_put_def set_insort_key intro!: distinct_map_insort_key)
  qed
qed

lemma find_Some_set: "find P xs = Some x \<Longrightarrow> x \<in> set xs \<and> P x"
  by (induction xs) (auto split: if_splits)

lemma store_get_Some: "store_get kf k st = Some r \<Longrightarrow> r \<in> set (rows st) \<and> kf r = k"
  by (auto simp: store_get_def dest: find_Some_set)

lemma set_rows_put:
  "set (rows (store_put kf r st)) \<subseteq> insert r (set (rows st))"
  by (auto simp: store_put_def set_insort_key)

lemma sound_refl: "wf_db s \<Longrightarrow> classes_ok s \<Longrightarrow> sound s s"
  by (simp add: sound_def images_kept_def)

lemma sound_projects_delete:
  "sound s d \<Longrightarrow> sound s (d\<lparr>projects := store_delete p_id k (projects d)\<rparr>)"
  by (auto simp: sound_def wf_db_def classes_ok_def images_kept_def wf_store_delete)
     (auto simp: store_delete_def)

lemma sound_images_delete:
  "sound s d \<Longrightarrow> sound s (d\<lparr>images := store_delete im_id k (images d)\<rparr>)"
  by (auto simp: sound_def wf_db_def classes_ok_def images_kept_def wf_store_delete)
     (auto simp: store_delete_def)

lemma sound_annotations_delete:
  "sound s d \<Longrightarrow> sound s (d\<lparr>annotations := store_delete an_id k (annotations d)\<rparr>)"
  by (auto simp: sound_def wf_db_def classes_ok_def images_kept_def wf_store_delete)

lemma sound_projects_put:
  "sound s d \<Longrightarrow> normalizeClassesString (p_classes p) = p_classes p \<Longrightarrow>
   sound s (d\<lparr>projects := store_put p_id p (projects d)\<rparr>)"
  using set_rows_put [of p_id p "projects d"]
  by (auto simp: sound_def wf_db_def classes_ok_def images_kept_def wf_store_put)

lemma sound_annotations_put:
  "sound s d \<Longrightarrow> sound s (d\<lparr>annotations := store_put an_id a (annotations d)\<rparr>)"
  by (auto simp: sound_def wf_db_def classes_ok_def images_kept_def wf_store_put)

lemma sound_projects_add:
  "sound s d \<Longrightarrow> (\<And>k. p_id (mk k) = k) \<Longrightarrow>
   (\<And>k. normalizeClassesString (p_classes (mk k)) = p_classes (mk k)) \<Longrightarrow>
   sound s (d\<lparr>projects := fst (store_add mk (projects d))\<rparr>)"
  by (auto simp: sound_def wf_db_def classes_ok_def images_kept_def wf_store_add)
     (auto simp: store_add_def Let_def)

lemma sound_annotations_add:
  "sound s d \<Longrightarrow> (\<And>k. an_id (mk k) = k) \<Longrightarrow>
   sound s (d\<lparr>annotations := fst (store_add mk (annotations d))\<rparr>)"
  by (auto simp: sound_def wf_db_def classes_ok_def images_kept_def wf_store_add)

lemma sound_images_add:
  "sound s d \<Longrightarrow> (\<And>k. im_id (mk k) = k) \<Longrightarrow>
   sound s (d\<lparr>images := fst (store_add mk (images d))\<rparr>)"
  by (auto simp: sound_def wf_db_def classes_ok_def images_kept_def wf_store_add)
     (auto simp: store_add_def Let_def)

lemmas sound_steps = sound_projects_delete sound_images_delete sound_annotations_delete
  sound_projects_put sound_annotations_put sound_projects_add sound_annotations_add
  sound_images_add

lemmas tx_defs = withStore_def withStores_def transactionDone_def await_def read_request_def
  write_request_def and_then_def Let_def createProject_tx_def updateProject_tx_def
  deleteProject_tx_def createAnnotation_tx_def updateAnnotation_tx_def deleteAnnotation_tx_def
  get_request_def

lemma updateProject_sound:
  assumes "sound s0 s"
  shows "sound s0 (fst (updateProject flt now k data s))"
  using assms
  by (auto simp: updateProject_def tx_defs normalize_idem
      split: option.splits nat.splits
      intro!: sound_projects_put dest!: store_get_Some)
     (auto simp: sound_def classes_ok_def)

lemma createProject_sound:
  assumes "sound s0 s"
  shows "sound s0 (fst (createProject flt now data s))"
  using assms sound_projects_add [of s0 s "createProject_record now data"]
  by (auto simp: createProject_def createProject_record_def tx_defs normalize_idem case_prod_beta
      split: option.splits nat.splits)

lemma createAnnotation_sound:
  assumes "sound s0 s"
  shows "sound s0 (fst (createAnnotation flt now k data s))"
  using assms sound_annotations_add [of s0 s "createAnnotation_record now k data"]
  by (auto simp: createAnnotation_def createAnnotation_record_def tx_defs case_prod_beta
      split: option.splits nat.splits)

lemma updateAnnotation_sound:
  assumes "sound s0 s"
  shows "sound s0 (fst (updateAnnotation flt now k data s))"
  using assms
  by (auto simp: updateAnnotation_def tx_defs
      split: option.splits nat.splits
      intro!: sound_annotations_put)

lemma deleteAnnotation_sound:
  assumes "sound s0 s"
  shows "sound s0 (fst (deleteAnnotation flt k s))"
  using assms
  by (auto simp: deleteAnnotation_def tx_defs
      split: option.splits nat.splits
      intro!: sound_annotations_delete)

lemma delete_annotations_keeps:
  assumes "\<And>k d. I d \<Longrightarrow> I (d\<lparr>annotations := store_delete an_id k (annotations d)\<rparr>)"
  shows "tx_keeps I (delete_annotations anns)"
proof (induction anns)
  case Nil
  show ?case by (simp add: tx_keeps_def)
next
  case (Cons ann anns)
  have "tx_keeps I
     (\<lambda>t. await (write_request
              (\<lambda>d. (d\<lparr>annotations := store_delete an_id (an_id ann) (annotations d)\<rparr>, ())) t)
       (\<lambda>t _. delete_annotations anns t))"
    by (intro keeps_await keeps_write Cons.IH) (simp add: assms)
  then show ?case by (simp add: tx_keeps_def)
qed

lemma delete_images_keeps:
  assumes "\<And>k d. I d \<Longrightarrow> I (d\<lparr>annotations := store_delete an_id k (annotations d)\<rparr>)"
    and "\<And>k d. I d \<Longrightarrow> I (d\<lparr>images := store_delete im_id k (images d)\<rparr>)"
  shows "tx_keeps I (delete_images imgs)"
proof (induction imgs)
  case Nil
  show ?case by (simp add: tx_keeps_def)
next
  case (Cons img imgs)
  have "tx_keeps I
     (\<lambda>t. await (write_request (\<lambda>d. (d\<lparr>images := store_delete im_id (im_id img) (images d)\<rparr>, ())) t)
       (\<lambda>t _. await (read_request (\<lambda>d. index_getAll image_id (im_id img) (annotations d)) t)
          (\<lambda>t anns. await (delete_annotations anns t)
             (\<lambda>t _. delete_images imgs t))))"
    by (intro keeps_await keeps_write keeps_read Cons.IH delete_annotations_keeps)
       (simp_all add: assms)
  then show ?case by (simp add: tx_keeps_def)
qed

lemma deleteProject_body_keeps:
  assumes "\<And>k d. I d \<Longrightarrow> I (d\<lparr>annotations := store_delete an_id k (annotations d)\<rparr>)"
    and "\<And>k d. I d \<Longrightarrow> I (d\<lparr>images := store_delete im_id k (images d)\<rparr>)"
    and "\<And>k d. I d \<Longrightarrow> I (d\<lparr>projects := store_delete p_id k (projects d)\<rparr>)"
  shows "tx_keeps I (deleteProject_tx k)"
proof -
  have "tx_keeps I
     (\<lambda>t. await (write_request
                   (\<lambda>d. (d\<lparr>projects := store_delete p_id k (projects d)\<rparr>, ())) t)
        (\<lambda>t _. await (read_request (\<lambda>d. index_getAll project_id k (images d)) t)
           (\<lambda>t imgs. delete_images imgs t)))"
    by (intro keeps_await keeps_write keeps_read delete_images_keeps) (simp_all add: assms)
  then show ?thesis by (simp add: tx_keeps_def deleteProject_tx_def)
qed

lemma upload_loop_keeps:
  assumes "\<And>mk d. (\<And>k. im_id (mk k) = k) \<Longrightarrow> I d \<Longrightarrow> I (d\<lparr>images := fst (store_add mk (images d))\<rparr>)"
  shows "tx_keeps I (upload_loop k now files out)"
proof (induction files arbitrary: out)
  case Nil
  show ?case by (simp add: tx_keeps_def)
next
  case (Cons f files)
  show ?case
  proof (cases "file_name f = [] \<or> \<not> isImageFilename (file_name f)")
    case True
    with Cons.IH [of out] show ?thesis by (simp add: tx_keeps_def)
  next
    case False
    have "tx_keeps I (\<lambda>t. await
             (write_request
                (\<lambda>d. case store_add
                            (\<lambda>k'. \<lparr>im_id = k', project_id = k, filename = file_name f,
                                   file_path = file_name f, im_width = None, im_height = None,
                                   im_created_at = now, blob = Some f,
                                   file_handle = None\<rparr>) (images d) of
                        (st, k) \<Rightarrow> (d\<lparr>images := st\<rparr>, k)) t)
             (\<lambda>t key. upload_loop k now files
                (out @ [\<lparr>im_id = key, project_id = k, filename = file_name f,
                         file_path = file_name f, im_width = None, im_height = None,
                         im_created_at = now\<rparr>]) t))"
      by (intro keeps_await keeps_write Cons.IH) (simp add: case_prod_beta assms)
    with False show ?thesis by (simp add: tx_keeps_def)
  qed
qed

lemma delete_images_sound: "tx_keeps (sound s0) (delete_images imgs)"
  by (rule delete_images_keeps) (simp_all add: sound_annotations_delete sound_images_delete)

lemma deleteProject_body_sound: "tx_keeps (sound s0) (deleteProject_tx k)"
  by (rule deleteProject_body_keeps)
     (simp_all add: sound_annotations_delete sound_images_delete sound_projects_delete)

lemma fst_and_then_const: "fst (and_then m (\<lambda>s a. (s, f a))) = fst m"
  by (auto simp: and_then_def split: prod.splits sum.splits)

lemma deleteProject_sound:
  assumes "sound s0 s"
  shows "sound s0 (fst (deleteProject flt k s))"
  unfolding deleteProject_def fst_and_then_const
  by (rule withStores_keeps [OF deleteProject_body_sound assms])

lemma upload_loop_sound: "tx_keeps (sound s0) (upload_loop k now files out)"
  by (rule upload_loop_keeps) (simp add: sound_images_add)

lemma uploadImages_sound:
  assumes "sound s0 s"
  shows "sound s0 (fst (uploadImages flt now k files s))"
  unfolding uploadImages_def withStore_def
  by (rule withStores_keeps [OF upload_loop_sound assms])

lemma import_tx_cases:
  obtains (missing) "store_get p_id k (projects s) = None"
      and "import_tx now h k (s, flt) = Thrown (Error ''Project not found'') (s, flt)"
    | (refused) p where "store_get p_id k (projects s) = Some p"
      and "import_tx now h k (s, flt) = Failed RequestError"
    | (put) p flt' where "store_get p_id k (projects s) = Some p"
      and "import_tx now h k (s, flt) =
             Done (s\<lparr>projects := store_put p_id (p\<lparr>p_updated_at := now, root_handle := Some h\<rparr>)
                                   (projects s)\<rparr>, flt')
               (set (map filename (index_getAll project_id k (images s))))"
proof (cases "store_get p_id k (projects s)")
  case None
  then show ?thesis
    by (intro missing) (simp_all add: import_tx_def await_def read_request_def)
next
  case (Some p)
  show ?thesis
  proof (cases flt)
    case None
    with Some show ?thesis
      by (intro put [of p None])
         (simp_all add: import_tx_def await_def read_request_def write_request_def Let_def)
  next
    case (Some n)
    show ?thesis
    proof (cases n)
      case 0
      with \<open>flt = Some n\<close> \<open>store_get p_id k (projects s) = Some p\<close> show ?thesis
        by (intro refused [of p])
           (simp_all add: import_tx_def await_def read_request_def write_request_def Let_def)
    next
      case (Suc m)
      with \<open>flt = Some n\<close> \<open>store_get p_id k (projects s) = Some p\<close> show ?thesis
        by (intro put [of p "Some m"])
           (simp_all add: import_tx_def await_def read_request_def write_request_def Let_def)
    qed
  qed
qed

lemma import_loop_state:
  "(case import_loop k createdAt entries names cnt d of
      Done d' c \<Rightarrow> d' = d | Thrown e d' \<Rightarrow> d' = d \<and> e = TransactionInactiveError
    | Failed e \<Rightarrow> False)"
  by (induction entries arbitrary: names cnt) (simp_all add: add_inactive_def await_def)

lemma fst_outcome_case:
  "fst (case out of Done x c \<Rightarrow> (d, f c) | Thrown e x \<Rightarrow> (d, g e) | Failed e \<Rightarrow> (d, h e)) = d"
  by (cases out) simp_all

lemma importImagesFromFolder_fst:
  "fst (importImagesFromFolder flt createdAt now picker late k s) = s \<or>
   (\<exists>p h. store_get p_id k (projects s) = Some p \<and>
      fst (importImagesFromFolder flt createdAt now picker late k s) =
        s\<lparr>projects := store_put p_id (p\<lparr>p_updated_at := now, root_handle := Some h\<rparr>)
                          (projects s)\<rparr>)"
proof (cases picker)
  case NoPicker
  then show ?thesis by (simp add: importImagesFromFolder_def)
next
  case PickerRejects
  then show ?thesis by (simp add: importImagesFromFolder_def)
next
  case (Picked h)
  show ?thesis
  proof (cases rule: import_tx_cases [of k s now h flt])
    case missing
    with Picked show ?thesis
      by (simp add: importImagesFromFolder_def transactionDone_def split: option.splits nat.splits)
  next
    case (refused p)
    with Picked show ?thesis by (simp add: importImagesFromFolder_def)
  next
    case (put p flt')
    let ?d = "s\<lparr>projects := store_put p_id (p\<lparr>p_updated_at := now, root_handle := Some h\<rparr>)
                                   (projects s)\<rparr>"
    show ?thesis
    proof (cases "flt' = Some 0")
      case True
      with Picked put have "fst (importImagesFromFolder flt createdAt now picker late k s) = s"
        by (simp add: importImagesFromFolder_def transactionDone_def fst_outcome_case)
      then show ?thesis ..
    next
      case False
      with Picked put have "fst (importImagesFromFolder flt createdAt now picker late k s) = ?d"
        by (simp add: importImagesFromFolder_def transactionDone_def fst_outcome_case
            split: option.splits nat.splits)
      with put(1) show ?thesis by blast
    qed
  qed
qed

lemma importImagesFromFolder_sound:
  assumes "sound s0 s"
  shows "sound s0 (fst (importImagesFromFolder flt createdAt now picker late k s))"
  using importImagesFromFolder_fst [of flt createdAt now picker late k s]
proof
  assume "fst (importImagesFromFolder flt createdAt now picker late k s) = s"
  with assms show ?thesis by simp
next
  assume "\<exists>p h. store_get p_id k (projects s) = Some p \<and>
      fst (importImagesFromFolder flt createdAt now picker late k s) =
        s\<lparr>projects := store_put p_id (p\<lparr>p_updated_at := now, root_handle := Some h\<rparr>)
                          (projects s)\<rparr>"
  then obtain p h where p: "store_get p_id k (projects s) = Some p"
    and eq: "fst (importImagesFromFolder flt createdAt now picker late k s) =
        s\<lparr>projects := store_put p_id (p\<lparr>p_updated_at := now, root_handle := Some h\<rparr>)
                          (projects s)\<rparr>"
    by blast
  from assms p have "normalizeClassesString (p_classes p) = p_classes p"
    by (auto simp: sound_def classes_ok_def dest!: store_get_Some)
  with assms show ?thesis unfolding eq by (simp add: sound_projects_put)
qed
section \<open>The cascade of deleteProject\<close>

lemma filter_key_notin:
  assumes "distinct (map kf xs)"
  shows "filter (\<lambda>r. kf r \<notin> kf ` set (filter P xs)) xs = filter (\<lambda>r. \<not> P r) xs"
proof (rule filter_cong [OF refl])
  fix r assume r: "r \<in> set xs"
  show "(kf r \<notin> kf ` set (filter P xs)) = (\<not> P r)"
  proof
    assume "kf r \<notin> kf ` set (filter P xs)"
    with r show "\<not> P r" by auto
  next
    assume n: "\<not> P r"
    show "kf r \<notin> kf ` set (filter P xs)"
    proof
      assume "kf r \<in> kf ` set (filter P xs)"
      then obtain r' where r': "r' \<in> set xs" "P r'" "kf r' = kf r" by auto
      from assms have "inj_on kf (set xs)" by (simp add: distinct_map)
      with r r' have "r' = r" by (auto dest: inj_onD)
      with r' n show False by simp
    qed
  qed
qed

lemma store_delete_without: "store_delete kf k st = without_rows (\<lambda>r. kf r = k) st"
  by (simp add: store_delete_def without_rows_def)

lemma without_rows_twice:
  "without_rows P (without_rows Q st) = without_rows (\<lambda>r. Q r \<or> P r) st"
  by (simp add: without_rows_def conj_commute)

lemma without_rows_eqI: "(\<And>r. P r = Q r) \<Longrightarrow> without_rows P st = without_rows Q st"
  by (simp add: without_rows_def)

lemma delete_annotations_None:
  "delete_annotations anns (d, None) =
     Done (d\<lparr>annotations := without_rows (\<lambda>a. an_id a \<in> an_id ` set anns) (annotations d)\<rparr>, None) ()"
proof (induction anns arbitrary: d)
  case Nil
  show ?case by (simp add: without_rows_def)
next
  case (Cons ann anns)
  have "delete_annotations (ann # anns) (d, None) =
     Done (d\<lparr>annotations := without_rows (\<lambda>a. an_id a \<in> an_id ` set anns)
        (without_rows (\<lambda>a. an_id a = an_id ann) (annotations d))\<rparr>, None) ()"
    by (simp add: write_request_def await_def Cons.IH store_delete_without)
  also have "without_rows (\<lambda>a. an_id a \<in> an_id ` set anns)
        (without_rows (\<lambda>a. an_id a = an_id ann) (annotations d)) =
      without_rows (\<lambda>a. an_id a \<in> an_id ` set (ann # anns)) (annotations d)"
    unfolding without_rows_twice by (rule without_rows_eqI) auto
  finally show ?case .
qed

lemma delete_images_None:
  assumes "distinct (map an_id (rows (annotations d)))"
  shows "delete_images imgs (d, None) =
     Done (d\<lparr>images := without_rows (\<lambda>im. im_id im \<in> im_id ` set imgs) (images d),
             annotations := without_rows (\<lambda>a. image_id a \<in> im_id ` set imgs) (annotations d)\<rparr>,
           None) ()"
  using assms
proof (induction imgs arbitrary: d)
  case Nil
  show ?case by (simp add: without_rows_def)
next
  case (Cons img imgs)
  let ?anns = "index_getAll image_id (im_id img) (annotations d)"
  let ?d1 = "d\<lparr>images := store_delete im_id (im_id img) (images d)\<rparr>"
  let ?d2 = "?d1\<lparr>annotations := without_rows (\<lambda>a. an_id a \<in> an_id ` set ?anns) (annotations ?d1)\<rparr>"
  have a: "without_rows (\<lambda>a. an_id a \<in> an_id ` set ?anns) (annotations d) =
           without_rows (\<lambda>a. image_id a = im_id img) (annotations d)"
    using filter_key_notin [OF Cons.prems, of "\<lambda>a. image_id a = im_id img"]
    by (simp add: without_rows_def index_getAll_def)
  have dist: "distinct (map an_id (rows (annotations ?d2)))"
    using Cons.prems by (simp add: without_rows_def distinct_map_filter)
  have "delete_images (img # imgs) (d, None) = delete_images imgs (?d2, None)"
    by (simp add: write_request_def read_request_def await_def delete_annotations_None)
  also have "\<dots> = Done (?d2\<lparr>images := without_rows (\<lambda>im. im_id im \<in> im_id ` set imgs) (images ?d2),
             annotations := without_rows (\<lambda>a. image_id a \<in> im_id ` set imgs) (annotations ?d2)\<rparr>,
           None) ()"
    by (rule Cons.IH [OF dist])
  also have "?d2\<lparr>images := without_rows (\<lambda>im. im_id im \<in> im_id ` set imgs) (images ?d2),
             annotations := without_rows (\<lambda>a. image_id a \<in> im_id ` set imgs) (annotations ?d2)\<rparr> =
     d\<lparr>images := without_rows (\<lambda>im. im_id im \<in> im_id ` set (img # imgs)) (images d),
             annotations := without_rows (\<lambda>a. image_id a \<in> im_id ` set (img # imgs)) (annotations d)\<rparr>"
  proof -
    have 1: "without_rows (\<lambda>im. im_id im \<in> im_id ` set imgs)
               (without_rows (\<lambda>im. im_id im = im_id img) (images d)) =
             without_rows (\<lambda>im. im_id im \<in> im_id ` set (img # imgs)) (images d)"
      unfolding without_rows_twice by (rule without_rows_eqI) auto
    have 2: "without_rows (\<lambda>a. image_id a \<in> im_id ` set imgs)
               (without_rows (\<lambda>a. image_id a = im_id img) (annotations d)) =
             without_rows (\<lambda>a. image_id a \<in> im_id ` set (img # imgs)) (annotations d)"
      unfolding without_rows_twice by (rule without_rows_eqI) auto
    have "?d2\<lparr>images := without_rows (\<lambda>im. im_id im \<in> im_id ` set imgs) (images ?d2),
             annotations := without_rows (\<lambda>a. image_id a \<in> im_id ` set imgs) (annotations ?d2)\<rparr> =
       d\<lparr>images := without_rows (\<lambda>im. im_id im \<in> im_id ` set imgs)
               (without_rows (\<lambda>im. im_id im = im_id img) (images d)),
         annotations := without_rows (\<lambda>a. image_id a \<in> im_id ` set imgs)
               (without_rows (\<lambda>a. image_id a = im_id img) (annotations d))\<rparr>"
      by (simp add: a store_delete_without)
    then show ?thesis unfolding 1 2 .
  qed
  finally show ?case .
qed

lemma deleteProject_None:
  assumes "wf_db s"
  shows "deleteProject None k s =
     (s\<lparr>projects := without_rows (\<lambda>p. p_id p = k) (projects s),
        images := without_rows (\<lambda>im. project_id im = k) (images s),
        annotations := without_rows
           (\<lambda>a. image_id a \<in> im_id ` set (filter (\<lambda>im. project_id im = k) (rows (images s))))
           (annotations s)\<rparr>, Inr True)"
proof -
  let ?imgs = "index_getAll project_id k (images s)"
  let ?d1 = "s\<lparr>projects := store_delete p_id k (projects s)\<rparr>"
  from assms have da: "distinct (map an_id (rows (annotations ?d1)))"
    and di: "distinct (map im_id (rows (images s)))"
    by (simp_all add: wf_db_def wf_store_def)
  have i: "without_rows (\<lambda>im. im_id im \<in> im_id ` set ?imgs) (images s) =
           without_rows (\<lambda>im. project_id im = k) (images s)"
    using filter_key_notin [OF di, of "\<lambda>im. project_id im = k"]
    by (simp add: without_rows_def index_getAll_def)
  have s: "?imgs = filter (\<lambda>im. project_id im = k) (rows (images s))"
    by (simp add: index_getAll_def)
  have body: "deleteProject_tx k (s, None) = delete_images ?imgs (?d1, None)"
    by (simp add: deleteProject_tx_def write_request_def read_request_def await_def)
  show ?thesis
    unfolding deleteProject_def withStores_def body delete_images_None [OF da]
    by (simp add: and_then_def transactionDone_def i [unfolded s] s store_delete_without
        del: set_filter)
qed

lemma wf_demo_db: "wf_db demo_db"
  by (simp add: wf_db_def wf_store_def demo_db_def demo_project_def demo_image_def
      demo_annotation_def)

text \<open>
  Claim C1. On a storage that accepts every request, \<open>deleteProject\<close> removes the project
  with the given key, every image of that project and every annotation of one of those
  images, changes nothing else, and returns \<^verbatim>\<open>{ ok: true }\<close>.
\<close>

theorem deleteProject_cascade:
  "wf_db s \<Longrightarrow>
   deleteProject None ident s =
     (s\<lparr>projects := without_rows (\<lambda>p. p_id p = ident) (projects s),
        images := without_rows (\<lambda>im. project_id im = ident) (images s),
        annotations := without_rows
           (\<lambda>a. image_id a \<in> im_id ` set (filter (\<lambda>im. project_id im = ident) (rows (images s))))
           (annotations s)\<rparr>, Inr True)"
  by (rule deleteProject_None)

theorem deleteProject_cascade_witness:
  "wf_db demo_db \<and>
   deleteProject None 1 demo_db =
     (\<lparr>projects = \<lparr>rows = [demo_project 2 [] 20], next_key = 3\<rparr>,
       images = \<lparr>rows = [demo_image 2 2 ''y.png'' 30], next_key = 4\<rparr>,
       annotations = \<lparr>rows = [demo_annotation 2 2 1, demo_annotation 4 9 0], next_key = 5\<rparr>\<rparr>,
      Inr True)"
proof -
  have "(demo_db\<lparr>projects := without_rows (\<lambda>p. p_id p = 1) (projects demo_db),
        images := without_rows (\<lambda>im. project_id im = 1) (images demo_db),
        annotations := without_rows
           (\<lambda>a. image_id a \<in> im_id ` set (filter (\<lambda>im. project_id im = 1) (rows (images demo_db))))
           (annotations demo_db)\<rparr>) =
     \<lparr>projects = \<lparr>rows = [demo_project 2 [] 20], next_key = 3\<rparr>,
       images = \<lparr>rows = [demo_image 2 2 ''y.png'' 30], next_key = 4\<rparr>,
       annotations = \<lparr>rows = [demo_annotation 2 2 1, demo_annotation 4 9 0], next_key = 5\<rparr>\<rparr>"
    by (simp add: without_rows_def demo_db_def demo_project_def demo_image_def
        demo_annotation_def)
  with deleteProject_cascade [OF wf_demo_db, of 1] wf_demo_db show ?thesis
    by (simp only:)
qed

section \<open>The reading functions\<close>

lemma store_get_None: "store_get kf k st = None \<longleftrightarrow> k \<notin> kf ` set (rows st)"
  by (auto simp: store_get_def find_None_iff)

lemma store_get_wf:
  assumes "distinct (map kf (rows st))" and "r \<in> set (rows st)"
  shows "store_get kf (kf r) st = Some r"
proof (cases "store_get kf (kf r) st")
  case None
  with assms(2) show ?thesis by (auto simp: store_get_None)
next
  case (Some r')
  then have "r' \<in> set (rows st)" "kf r' = kf r" by (auto dest: store_get_Some)
  moreover from assms(1) have "inj_on kf (set (rows st))" by (simp add: distinct_map)
  ultimately have "r' = r" using assms(2) by (auto dest: inj_onD)
  with Some show ?thesis by simp
qed

lemma getProject_eq:
  "getProject ident s =
     (s, case ident of
           Natural k \<Rightarrow>
             (case store_get p_id k (projects s) of
                None \<Rightarrow> Inl (Error ''Project not found'')
              | Some p \<Rightarrow> Inr (strip_root_handle p))
         | NoNatural \<Rightarrow> Inl (Error ''Project not found'')
         | NaN \<Rightarrow> Inl DataError)"
  by (cases ident) (simp_all add: getProject_def tx_defs split: option.splits)

text \<open>
  Claim C5, amended. \<open>getProject\<close> changes no store. With \<^verbatim>\<open>NaN\<close>, which is no valid key,
  the lookup itself throws a \<^verbatim>\<open>DataError\<close>. With every other number it throws exactly when
  no project has the key, and then the error is \<^verbatim>\<open>Project not found\<close>; otherwise it returns
  the stored record without its \<^verbatim>\<open>root_handle\<close>, every other field as stored.
\<close>

theorem getProject_spec:
  "fst (getProject ident s) = s \<and>
   (ident = NaN \<longrightarrow> snd (getProject ident s) = Inl DataError) \<and>
   (ident \<noteq> NaN \<longrightarrow>
      (snd (getProject ident s) = Inl (Error ''Project not found'') \<longleftrightarrow>
         ident \<notin> Natural ` p_id ` set (rows (projects s))) \<and>
      (\<forall>e. snd (getProject ident s) = Inl e \<longrightarrow> e = Error ''Project not found'')) \<and>
   (wf_db s \<longrightarrow>
      (\<forall>p \<in> set (rows (projects s)). Natural (p_id p) = ident \<longrightarrow>
         snd (getProject ident s) = Inr (strip_root_handle p) \<and>
         p_id (strip_root_handle p) = p_id p \<and> p_name (strip_root_handle p) = p_name p \<and>
         p_description (strip_root_handle p) = p_description p \<and>
         p_classes (strip_root_handle p) = p_classes p \<and>
         p_created_at (strip_root_handle p) = p_created_at p \<and>
         p_updated_at (strip_root_handle p) = p_updated_at p))"
proof -
  have 1: "fst (getProject ident s) = s" by (simp add: getProject_eq)
  have 0: "snd (getProject ident s) = Inl DataError" if "ident = NaN"
    using that by (simp add: getProject_eq)
  have 2: "snd (getProject ident s) = Inl (Error ''Project not found'') \<longleftrightarrow>
      ident \<notin> Natural ` p_id ` set (rows (projects s))" if "ident \<noteq> NaN"
  proof (cases ident)
    case (Natural k)
    have "Natural k \<in> Natural ` p_id ` set (rows (projects s)) \<longleftrightarrow>
        k \<in> p_id ` set (rows (projects s))"
      by auto
    with Natural show ?thesis
      by (simp add: getProject_eq store_get_None [symmetric] split: option.splits)
  next
    case NoNatural
    then show ?thesis by (auto simp: getProject_eq)
  next
    case NaN
    with that show ?thesis by simp
  qed
  have 3: "e = Error ''Project not found''"
    if "ident \<noteq> NaN" and "snd (getProject ident s) = Inl e" for e
    using that by (simp add: getProject_eq split: option.splits number.splits)
  have 4: "snd (getProject ident s) = Inr (strip_root_handle p)"
    if "wf_db s" and "p \<in> set (rows (projects s))" and "Natural (p_id p) = ident" for p
  proof -
    from that have "store_get p_id (p_id p) (projects s) = Some p"
      using store_get_wf [of p_id "projects s" p] by (auto simp: wf_db_def wf_store_def)
    with that(3) [symmetric] show ?thesis by (simp add: getProject_eq)
  qed
  have 5: "p_id (strip_root_handle p) = p_id p \<and> p_name (strip_root_handle p) = p_name p \<and>
         p_description (strip_root_handle p) = p_description p \<and>
         p_classes (strip_root_handle p) = p_classes p \<and>
         p_created_at (strip_root_handle p) = p_created_at p \<and>
         p_updated_at (strip_root_handle p) = p_updated_at p" for p
    by (simp add: strip_root_handle_def)
  from 0 1 2 3 4 5 show ?thesis by blast
qed

lemma demo_project_keys: "p_id ` set (rows (projects demo_db)) = {1, 2}"
  by (simp add: demo_db_def demo_project_def)

theorem getProject_spec_witness:
  "wf_db demo_db \<and>
   getProject (Natural 2) demo_db =
     (demo_db, Inr \<lparr>p_id = 2, p_name = ''p'', p_description = None, p_classes = [],
                    p_created_at = 20, p_updated_at = 20\<rparr>) \<and>
   getProject (Natural 7) demo_db = (demo_db, Inl (Error ''Project not found'')) \<and>
   getProject NoNatural demo_db = (demo_db, Inl (Error ''Project not found'')) \<and>
   getProject NaN demo_db = (demo_db, Inl DataError)"
proof -
  have m: "demo_project 2 [] 20 \<in> set (rows (projects demo_db))"
    and k: "Natural (p_id (demo_project 2 [] 20)) = Natural 2"
    by (simp_all add: demo_db_def demo_project_def)
  have n: "Natural 7 \<notin> Natural ` p_id ` set (rows (projects demo_db))"
    and o: "NoNatural \<notin> Natural ` p_id ` set (rows (projects demo_db))"
    unfolding demo_project_keys by simp_all
  have d: "Natural 7 \<noteq> NaN" "NoNatural \<noteq> NaN" by simp_all
  have v: "strip_root_handle (demo_project 2 [] 20) =
      \<lparr>p_id = 2, p_name = ''p'', p_description = None, p_classes = [],
        p_created_at = 20, p_updated_at = 20\<rparr>"
    by (simp add: strip_root_handle_def demo_project_def)
  from getProject_spec [of "Natural 2" demo_db] wf_demo_db m k
  have "snd (getProject (Natural 2) demo_db) = Inr (strip_root_handle (demo_project 2 [] 20))"
    and "fst (getProject (Natural 2) demo_db) = demo_db" by blast+
  moreover from getProject_spec [of "Natural 7" demo_db] n d
  have "fst (getProject (Natural 7) demo_db) = demo_db"
    and "snd (getProject (Natural 7) demo_db) = Inl (Error ''Project not found'')" by blast+
  moreover from getProject_spec [of NoNatural demo_db] o d
  have "fst (getProject NoNatural demo_db) = demo_db"
    and "snd (getProject NoNatural demo_db) = Inl (Error ''Project not found'')" by blast+
  moreover from getProject_spec [of NaN demo_db]
  have "fst (getProject NaN demo_db) = demo_db"
    and "snd (getProject NaN demo_db) = Inl DataError" by blast+
  ultimately show ?thesis using wf_demo_db v
    by (simp add: prod_eq_iff)
qed

text \<open>
  Claim C5 as the specification states it fails for \<^verbatim>\<open>NaN\<close>, which the export page and the
  annotation page pass on when the project in the address is no number: no project
  record has that key, and the error is not \<^verbatim>\<open>Project not found\<close>.
\<close>

theorem getProject_counterexample:
  "getProject NaN demo_db = (demo_db, Inl DataError) \<and>
   NaN \<notin> Natural ` p_id ` set (rows (projects demo_db)) \<and>
   \<not> getProject_as_claimed NaN demo_db"
proof -
  have "NaN \<notin> Natural ` p_id ` set (rows (projects demo_db))"
    unfolding demo_project_keys by simp
  then show ?thesis by (simp add: getProject_as_claimed_def getProject_eq)
qed

lemma getAnnotations_eq:
  "getAnnotations imageId s = (s, Inr (index_getAll image_id imageId (annotations s)))"
  by (simp add: getAnnotations_def tx_defs)

text \<open>
  Claim C7. \<open>getAnnotations\<close> returns the stored annotations whose \<^verbatim>\<open>image_id\<close> is the given
  one, as they are stored, and changes no store.
\<close>

theorem getAnnotations_passthrough:
  "getAnnotations imageId s = (s, Inr (filter (\<lambda>a. image_id a = imageId) (rows (annotations s))))"
  by (simp add: getAnnotations_eq index_getAll_def)

lemma getProjects_eq:
  "getProjects s =
     (s, Inr (sort_key (\<lambda>p. - p_created_at p) (map strip_root_handle (rows (projects s)))))"
  by (simp add: getProjects_def tx_defs store_getAll_def)

lemma getImages_eq:
  "getImages k s =
     (s, Inr (sort_key (\<lambda>im. - im_created_at im)
                (map image_view (filter (\<lambda>im. project_id im = k) (rows (images s))))))"
  by (simp add: getImages_def tx_defs index_getAll_def)

lemma newest_first: "sorted_wrt (\<lambda>a b. f b \<le> (f a :: int)) (sort_key (\<lambda>x. - f x) xs)"
proof -
  have "sorted (map (\<lambda>x. - f x) (sort_key (\<lambda>x. - f x) xs))" by (rule sorted_sort_key)
  then show ?thesis by (simp add: sorted_map)
qed

text \<open>
  Claim C10. \<open>getProjects\<close> and \<open>getImages\<close> return the records they read (all projects, the
  images of the project) ordered by \<^verbatim>\<open>created_at\<close>, newest first, whatever their order in
  the store.
\<close>

theorem lists_newest_first:
  "(\<exists>ps. getProjects s = (s, Inr ps) \<and>
         sorted_wrt (\<lambda>a b. p_created_at b \<le> p_created_at a) ps \<and>
         mset ps = mset (map strip_root_handle (rows (projects s)))) \<and>
   (\<exists>ims. getImages projectId s = (s, Inr ims) \<and>
         sorted_wrt (\<lambda>a b. im_created_at b \<le> im_created_at a) ims \<and>
         mset ims = mset (map image_view (filter (\<lambda>im. project_id im = projectId) (rows (images s)))))"
  by (simp add: getProjects_eq getImages_eq newest_first)

theorem lists_newest_first_witness:
  "getImages 1 demo_db =
     (demo_db, Inr [image_view (demo_image 3 1 ''x.png'' 20), image_view (demo_image 1 1 ''a/x.jpg'' 10)])"
  using lists_newest_first [of demo_db 1]
  by (simp add: getImages_eq demo_db_def demo_image_def image_view_def)

section \<open>What every call preserves\<close>

lemma getImageBlob_fst: "fst (getImageBlob granted k s) = s"
  by (auto simp: getImageBlob_def tx_defs split: option.splits fs_file.splits)

lemma export_loop_fst: "fst (export_loop fmt imgs z s) = s"
  by (induction imgs arbitrary: z) (simp_all add: getAnnotations_eq and_then_def)

lemma exportNeurova_fst: "fst (exportNeurova fmt k s) = s"
  by (cases k) (simp_all add: exportNeurova_def getImages_eq export_loop_fst tx_defs
      split: option.splits)

lemma fst_returning: "fst (returning f m) = fst m"
  by (simp add: returning_def)

lemma fst_run_import:
  "fst (run fmt (ImportImagesFromFolder flt createdAt now picker late k) s) =
     fst (importImagesFromFolder flt createdAt now picker late k s)"
  by (simp add: case_prod_beta)

lemma sound_empty: "sound s empty_db \<longleftrightarrow> next_key (images s) \<le> 1"
  by (auto simp: sound_def wf_db_def wf_store_def classes_ok_def images_kept_def empty_db_def
      empty_store_def)

lemma run_sound:
  assumes "sound s0 s"
  shows "sound s0 (fst (run fmt a s)) \<or> fst (run fmt a s) = empty_db"
proof (cases a)
  case (ClearAllLocalData deleted)
  with assms show ?thesis by (simp add: fst_returning clearAllLocalData_def)
qed (use assms in \<open>simp_all add: fst_returning case_prod_beta getProjects_eq getProject_eq getImages_eq
      getAnnotations_eq getImageBlob_fst exportNeurova_fst requestPersistentStorage_def
      createProject_sound updateProject_sound deleteProject_sound uploadImages_sound
      importImagesFromFolder_sound createAnnotation_sound updateAnnotation_sound
      deleteAnnotation_sound\<close>)

lemma wf_empty_db: "wf_db empty_db" and classes_ok_empty_db: "classes_ok empty_db"
  by (simp_all add: wf_db_def wf_store_def classes_ok_def empty_db_def empty_store_def)

lemma run_invariant:
  assumes "wf_db s" and "classes_ok s"
  shows "wf_db (fst (run fmt a s)) \<and> classes_ok (fst (run fmt a s)) \<and>
         images_kept s (fst (run fmt a s))"
proof -
  from assms have "sound s s" by (rule sound_refl)
  then have "sound s (fst (run fmt a s)) \<or> fst (run fmt a s) = empty_db" by (rule run_sound)
  then show ?thesis
    by (auto simp: sound_def wf_empty_db classes_ok_empty_db)
       (simp add: images_kept_def empty_db_def empty_store_def)
qed

lemma reachable_invariant: "reachable fmt s \<Longrightarrow> wf_db s \<and> classes_ok s"
proof (induction rule: reachable.induct)
  case initial
  show ?case by (simp add: wf_empty_db classes_ok_empty_db)
next
  case (call s a)
  then show ?case using run_invariant [of s fmt a] by simp
qed

lemma normalize_segments: "normalizeClassesString v = join_str '','' (class_segments v)"
  by (simp add: normalizeClassesString_def class_segments_def)

text \<open>
  Claim C8. \<open>normalizeClassesString\<close> is idempotent, and in every database that calls of the
  interface can produce, the class list of every project is a fixed point of it: the
  comma-joined list of its class names, each of them non-empty, trimmed and free of
  commas.
\<close>

theorem classes_normalized:
  "normalizeClassesString (normalizeClassesString v) = normalizeClassesString v \<and>
   (reachable fmt s \<longrightarrow>
      (\<forall>p \<in> set (rows (projects s)).
         normalizeClassesString (p_classes p) = p_classes p \<and>
         p_classes p = join_str '','' (class_segments (p_classes p)) \<and>
         (\<forall>seg \<in> set (class_segments (p_classes p)).
            seg \<noteq> [] \<and> trim seg = seg \<and> CHR '','' \<notin> set seg)))"
proof (intro conjI impI ballI)
  show "normalizeClassesString (normalizeClassesString v) = normalizeClassesString v"
    by (rule normalize_idem)
next
  fix p assume "reachable fmt s" and "p \<in> set (rows (projects s))"
  then show n: "normalizeClassesString (p_classes p) = p_classes p"
    using reachable_invariant [of fmt s] by (simp add: classes_ok_def)
  then show "p_classes p = join_str '','' (class_segments (p_classes p))"
    by (simp add: normalize_segments)
next
  fix p seg assume "seg \<in> set (class_segments (p_classes p))"
  then show "seg \<noteq> []" "trim seg = seg" "CHR '','' \<notin> set seg"
    by (auto dest: class_segments_props)
qed

lemma demo_create_run:
  "fst (run demo_fmt demo_create empty_db) =
     \<lparr>projects = \<lparr>rows = [\<lparr>p_id = 1, p_name = ''birds'', p_description = None,
                              p_classes = ''owl,tit'', p_created_at = 5, p_updated_at = 5,
                              root_handle = None\<rparr>], next_key = 2\<rparr>,
      images = empty_store, annotations = empty_store\<rparr>"
  by (simp add: demo_create_def createProject_def createProject_record_def tx_defs returning_def empty_db_def
      empty_store_def store_add_def normalizeClassesString_def trim_def is_white_space_def)

theorem classes_normalized_witness:
  "reachable demo_fmt (fst (run demo_fmt demo_create empty_db)) \<and>
   map p_classes (rows (projects (fst (run demo_fmt demo_create empty_db)))) = [''owl,tit''] \<and>
   normalizeClassesString ''owl,tit'' = ''owl,tit'' \<and>
   class_segments ''owl,tit'' = [''owl'', ''tit'']"
proof -
  have r: "reachable demo_fmt (fst (run demo_fmt demo_create empty_db))"
    by (rule reachable.call [OF reachable.initial])
  have m: "map p_classes (rows (projects (fst (run demo_fmt demo_create empty_db)))) = [''owl,tit'']"
    by (simp add: demo_create_run)
  then have "\<exists>p \<in> set (rows (projects (fst (run demo_fmt demo_create empty_db)))). p_classes p = ''owl,tit''"
    by (simp add: demo_create_run)
  with classes_normalized [of "[]" demo_fmt "fst (run demo_fmt demo_create empty_db)"] r
  have "normalizeClassesString ''owl,tit'' = ''owl,tit''" by auto
  moreover have "class_segments ''owl,tit'' = [''owl'', ''tit'']"
    by (simp add: class_segments_def trim_def is_white_space_def)
  ultimately show ?thesis using r m by simp
qed

section \<open>Uploading images\<close>

lemma endsWith_iff: "endsWith s suf \<longleftrightarrow> (\<exists>pre. s = pre @ suf)"
proof
  assume "endsWith s suf"
  then have "s = take (length s - length suf) s @ suf"
    by (metis append_take_drop_id endsWith_def)
  then show "\<exists>pre. s = pre @ suf" ..
next
  assume "\<exists>pre. s = pre @ suf"
  then show "endsWith s suf" by (auto simp: endsWith_def)
qed

lemma endsWith_lower:
  "endsWith (toLowerCase name) ext \<longleftrightarrow> (\<exists>stem suf. name = stem @ suf \<and> toLowerCase suf = ext)"
proof
  assume "endsWith (toLowerCase name) ext"
  then obtain pre where "map toLowerCase_char name = pre @ ext"
    by (auto simp: endsWith_iff toLowerCase_def)
  then show "\<exists>stem suf. name = stem @ suf \<and> toLowerCase suf = ext"
    by (auto simp: map_eq_append_conv toLowerCase_def)
next
  assume "\<exists>stem suf. name = stem @ suf \<and> toLowerCase suf = ext"
  then show "endsWith (toLowerCase name) ext"
    by (auto simp: endsWith_iff toLowerCase_def)
qed

lemma isImageFilename_iff: "isImageFilename name \<longleftrightarrow> has_image_extension name"
  unfolding isImageFilename_def has_image_extension_def image_extensions_def Let_def
    endsWith_lower by simp

lemma has_image_extension_nonempty: "has_image_extension name \<Longrightarrow> name \<noteq> []"
  by (auto simp: has_image_extension_def image_extensions_def toLowerCase_def)

lemma upload_loop_None:
  "upload_loop projectId now files out (d, None) =
     (let accepted = filter (\<lambda>f. has_image_extension (file_name f)) files;
          k = next_key (images d);
          keys = [k ..< k + length accepted]
      in Done (d\<lparr>images := (images d)\<lparr>rows := rows (images d) @
                                  map2 (uploaded_record projectId now) keys accepted,
                                next_key := k + length accepted\<rparr>\<rparr>, None)
              (out @ map image_view (map2 (uploaded_record projectId now) keys accepted)))"
proof (induction files arbitrary: out d)
  case Nil
  show ?case by simp
next
  case (Cons f files)
  show ?case
  proof (cases "has_image_extension (file_name f)")
    case False
    then show ?thesis
      using Cons.IH [of out d] by (simp add: isImageFilename_iff)
  next
    case True
    let ?k = "next_key (images d)"
    let ?d = "d\<lparr>images := (images d)\<lparr>rows := rows (images d) @ [uploaded_record projectId now ?k f],
                                      next_key := Suc ?k\<rparr>\<rparr>"
    let ?acc = "filter (\<lambda>f. has_image_extension (file_name f)) files"
    have u: "[?k..<Suc (?k + length ?acc)] = ?k # [Suc ?k..<Suc (?k + length ?acc)]"
      by (rule upt_conv_Cons) simp
    have step: "upload_loop projectId now (f # files) out (d, None) =
          upload_loop projectId now files (out @ [image_view (uploaded_record projectId now ?k f)])
            (?d, None)"
      using True has_image_extension_nonempty [OF True]
      by (simp add: isImageFilename_iff write_request_def await_def store_add_def Let_def
          uploaded_record_def image_view_def)
    show ?thesis
      unfolding step by (simp add: Cons.IH Let_def True u del: upt_Suc)
  qed
qed

text \<open>
  Claim C9. On a storage that accepts every request, \<open>uploadImages\<close> stores one record, under
  the next keys, for each file whose name ends with an image extension whatever the case
  of its letters, in the order of the files; the other files, an empty name among them,
  leave no record and raise no error. It returns the stored records as images, in that
  order, all with the given \<^verbatim>\<open>project_id\<close>.
\<close>

theorem uploadImages_spec:
  "uploadImages None now projectId files s =
     (let accepted = filter (\<lambda>f. has_image_extension (file_name f)) files;
          k = next_key (images s);
          inserted = map2 (uploaded_record projectId now) [k ..< k + length accepted] accepted
      in (s\<lparr>images := (images s)\<lparr>rows := rows (images s) @ inserted,
                                     next_key := k + length accepted\<rparr>\<rparr>,
          Inr (map image_view inserted))) \<and>
   (\<forall>k f. project_id (uploaded_record projectId now k f :: 'n ImageRecord) = projectId \<and>
          filename (uploaded_record projectId now k f :: 'n ImageRecord) = file_name f \<and>
          blob (uploaded_record projectId now k f :: 'n ImageRecord) = Some f)"
  by (simp add: uploadImages_def withStore_def withStores_def transactionDone_def
      upload_loop_None Let_def uploaded_record_def)

theorem uploadImages_spec_witness:
  "uploadImages None 7 2 demo_files (empty_db :: int db) =
     (\<lparr>projects = empty_store,
       images = \<lparr>rows = [uploaded_record 2 7 1 \<lparr>file_name = ''A.JPG'', file_data = ''1''\<rparr>,
                         uploaded_record 2 7 2 \<lparr>file_name = ''d/b.Png'', file_data = ''4''\<rparr>],
                 next_key = 3\<rparr>,
       annotations = empty_store\<rparr>,
      Inr [\<lparr>im_id = 1, project_id = 2, filename = ''A.JPG'', file_path = ''A.JPG'',
            im_width = None, im_height = None, im_created_at = 7\<rparr>,
           \<lparr>im_id = 2, project_id = 2, filename = ''d/b.Png'', file_path = ''d/b.Png'',
            im_width = None, im_height = None, im_created_at = 7\<rparr>])"
proof -
  have acc: "filter (\<lambda>f. has_image_extension (file_name f)) demo_files =
      [\<lparr>file_name = ''A.JPG'', file_data = ''1''\<rparr>, \<lparr>file_name = ''d/b.Png'', file_data = ''4''\<rparr>]"
    unfolding isImageFilename_iff [symmetric]
    by (simp add: demo_files_def isImageFilename_def toLowerCase_def toLowerCase_char_def
        endsWith_def)
  have keys: "[Suc 0..<3] = [1, 2]" by (simp add: upt_rec)
  from uploadImages_spec [of 7 2 demo_files "empty_db :: int db"] show ?thesis
    unfolding acc Let_def
    by (simp add: empty_db_def empty_store_def keys image_view_def uploaded_record_def)
qed

section \<open>Atomicity of the mutating functions\<close>

lemma free_done: "budget_free (\<lambda>t. Done t a)"
  by (simp add: budget_free_def)








lemma snd_and_then_const:
  "snd (and_then m (\<lambda>s a. (s, Inr (f a)))) = map_sum (\<lambda>e. e) f (snd m)"
  by (auto simp: and_then_def split: prod.splits sum.splits)

lemma and_then_const_eq:
  "and_then m (\<lambda>s a. (s, Inr (f a))) = (fst m, map_sum (\<lambda>e. e) f (snd m))"
  by (auto simp: and_then_def split: prod.splits sum.splits)

lemma map_sum_Inl_iff: "map_sum (\<lambda>e. e) f x = Inl e \<longleftrightarrow> x = Inl e"
  by (cases x) auto


lemma withStores_atomic_plain:
  "tx_keeps (\<lambda>_. True) fn \<Longrightarrow> snd (withStores flt fn s) = Inl e \<Longrightarrow>
   fst (withStores flt fn s) = s"
  by (rule withStores_atomic [where I = "\<lambda>_. True"]) simp_all

text \<open>The stores after a failed call, one function at a time.\<close>

lemma createProject_tx_keeps: "tx_keeps (\<lambda>_. True) (createProject_tx record)"
  unfolding createProject_tx_def by (rule keeps_write) simp

lemma createAnnotation_tx_keeps: "tx_keeps (\<lambda>_. True) (createAnnotation_tx record)"
  unfolding createAnnotation_tx_def by (rule keeps_write) simp

lemma deleteAnnotation_tx_keeps: "tx_keeps (\<lambda>_. True) (deleteAnnotation_tx k)"
  unfolding deleteAnnotation_tx_def by (rule keeps_write) simp

lemma createProject_atomic:
  "snd (createProject flt now data s) = Inl e \<Longrightarrow> fst (createProject flt now data s) = s"
  unfolding createProject_def Let_def and_then_const_eq withStore_def
  by (simp add: map_sum_Inl_iff withStores_atomic_plain createProject_tx_keeps)

lemma createAnnotation_atomic:
  "snd (createAnnotation flt now k data s) = Inl e \<Longrightarrow> fst (createAnnotation flt now k data s) = s"
  unfolding createAnnotation_def Let_def and_then_const_eq withStore_def
  by (simp add: map_sum_Inl_iff withStores_atomic_plain createAnnotation_tx_keeps)

lemma deleteAnnotation_atomic:
  "snd (deleteAnnotation flt k s) = Inl e \<Longrightarrow> fst (deleteAnnotation flt k s) = s"
  unfolding deleteAnnotation_def and_then_const_eq withStore_def
  by (simp add: map_sum_Inl_iff withStores_atomic_plain deleteAnnotation_tx_keeps)


lemma uploadImages_atomic:
  "snd (uploadImages flt now k files s) = Inl e \<Longrightarrow> fst (uploadImages flt now k files s) = s"
  unfolding uploadImages_def withStore_def
  by (simp add: withStores_atomic_plain upload_loop_keeps)

lemma updateProject_atomic:
  "snd (updateProject flt now k data s) = Inl e \<Longrightarrow> fst (updateProject flt now k data s) = s"
  by (auto simp: updateProject_def tx_defs split: option.splits nat.splits)

lemma updateAnnotation_atomic:
  "snd (updateAnnotation flt now k data s) = Inl e \<Longrightarrow> fst (updateAnnotation flt now k data s) = s"
  by (auto simp: updateAnnotation_def tx_defs split: option.splits nat.splits)













lemma aborts_forget: "aborts s (forget out) = aborts s out"
  by (cases out) (simp_all add: aborts_def forget_def)









































section \<open>The export\<close>

lemma folderAdd_labels:
  "folderAdd ''labels'' z =
     (if ''labels/'' \<in> fst ` set z then z else zip_put ''labels/'' ZipFolder z)"
  by (subst folderAdd.simps) (simp add: forceTrailingSlash_def parentFolder_def)

lemma collision_db_eq:
  "collision_db =
     \<lparr>projects = \<lparr>rows = [\<lparr>p_id = 1, p_name = ''p'', p_description = None,
                              p_classes = ''cat,dog'', p_created_at = 1, p_updated_at = 1,
                              root_handle = None\<rparr>], next_key = 2\<rparr>,
      images = \<lparr>rows = [uploaded_record 1 2 1 \<lparr>file_name = ''x.jpg'', file_data = ''1''\<rparr>,
                        uploaded_record 1 2 2 \<lparr>file_name = ''x.png'', file_data = ''2''\<rparr>],
                next_key = 3\<rparr>,
      annotations = \<lparr>rows = [\<lparr>an_id = 1, image_id = 1, class_id = 0, x_center = 1,
                                 y_center = 2, an_width = 3, an_height = 4,
                                 an_created_at = 3, an_updated_at = 3\<rparr>,
                               \<lparr>an_id = 2, image_id = 2, class_id = 1, x_center = 4,
                                 y_center = 3, an_width = 2, an_height = 1,
                                 an_created_at = 4, an_updated_at = 4\<rparr>],
                     next_key = 3\<rparr>\<rparr>"
  by (simp add: collision_db_def collision_calls_def fst_returning createProject_def
      createProject_record_def uploadImages_def createAnnotation_def createAnnotation_record_def
      tx_defs store_add_def empty_db_def empty_store_def uploaded_record_def
      normalizeClassesString_def trim_def is_white_space_def isImageFilename_def
      toLowerCase_def toLowerCase_char_def endsWith_def)


lemma collision_db_reachable: "reachable demo_fmt collision_db"
proof -
  have "reachable demo_fmt (foldl (\<lambda>s a. fst (run demo_fmt a s)) s as)"
    if "reachable demo_fmt s" for s and as :: "int api list"
    using that by (induction as arbitrary: s) (simp_all add: reachable.call)
  from this [OF reachable.initial] show ?thesis by (simp add: collision_db_def)
qed

lemma collision_export:
  "snd (exportNeurova demo_fmt (Natural 1) collision_db) =
     Inr [(''classes.txt'', ZipFile (''cat'' @ [CHR 0x0A] @ ''dog'' @ [CHR 0x0A])),
          (''labels/'', ZipFolder),
          (''labels/x.txt'', ZipFile (''1 4 3 2 1'' @ [CHR 0x0A]))]"
  unfolding collision_db_eq
  by (simp add: exportNeurova_def getImages_eq getAnnotations_eq index_getAll_def tx_defs
      store_get_def uploaded_record_def image_view_def label_name_def label_text_def
      label_line_def neurovaStem_def classes_text_def normalizeClassesString_def trim_def
      is_white_space_def zip_file_def zip_put_def parentFolder_def folderAdd_labels demo_fmt_def)

text \<open>
  Claim C3 fails on a database that calls of the interface produce. The project has the two
  images \<^verbatim>\<open>x.jpg\<close> and \<^verbatim>\<open>x.png\<close>, each with one annotation. Both have the stem \<^verbatim>\<open>x\<close>, and the
  second \<^verbatim>\<open>zip.file("labels/x.txt", ...)\<close> replaces the entry of the first: the archive has
  \<^verbatim>\<open>classes.txt\<close>, the folder \<^verbatim>\<open>labels/\<close> and a single label file, with the line of the
  annotation of \<^verbatim>\<open>x.png\<close>; the annotation of \<^verbatim>\<open>x.jpg\<close> is in no entry.
\<close>

theorem exportNeurova_collision:
  "getImages 1 collision_db =
     (collision_db,
      Inr [\<lparr>im_id = 1, project_id = 1, filename = ''x.jpg'', file_path = ''x.jpg'',
            im_width = None, im_height = None, im_created_at = 2\<rparr>,
           \<lparr>im_id = 2, project_id = 1, filename = ''x.png'', file_path = ''x.png'',
            im_width = None, im_height = None, im_created_at = 2\<rparr>]) \<and>
   getAnnotations 1 collision_db =
     (collision_db,
      Inr [\<lparr>an_id = 1, image_id = 1, class_id = 0, x_center = 1, y_center = 2, an_width = 3,
            an_height = 4, an_created_at = 3, an_updated_at = 3\<rparr>]) \<and>
   getAnnotations 2 collision_db =
     (collision_db,
      Inr [\<lparr>an_id = 2, image_id = 2, class_id = 1, x_center = 4, y_center = 3, an_width = 2,
            an_height = 1, an_created_at = 4, an_updated_at = 4\<rparr>]) \<and>
   exportNeurova demo_fmt (Natural 1) collision_db =
     (collision_db,
      Inr [(''classes.txt'', ZipFile (''cat'' @ [CHR 0x0A] @ ''dog'' @ [CHR 0x0A])),
           (''labels/'', ZipFolder),
           (''labels/x.txt'', ZipFile (''1 4 3 2 1'' @ [CHR 0x0A]))])"
proof -
  have "snd (getImages 1 collision_db) =
      Inr [\<lparr>im_id = 1, project_id = 1, filename = ''x.jpg'', file_path = ''x.jpg'',
            im_width = None, im_height = None, im_created_at = 2\<rparr>,
           \<lparr>im_id = 2, project_id = 1, filename = ''x.png'', file_path = ''x.png'',
            im_width = None, im_height = None, im_created_at = 2\<rparr>]"
    unfolding collision_db_eq by (simp add: getImages_eq uploaded_record_def image_view_def)
  moreover have "snd (getAnnotations 1 collision_db) =
      Inr [\<lparr>an_id = 1, image_id = 1, class_id = 0, x_center = 1, y_center = 2, an_width = 3,
            an_height = 4, an_created_at = 3, an_updated_at = 3\<rparr>]"
    unfolding collision_db_eq by (simp add: getAnnotations_eq index_getAll_def)
  moreover have "snd (getAnnotations 2 collision_db) =
      Inr [\<lparr>an_id = 2, image_id = 2, class_id = 1, x_center = 4, y_center = 3, an_width = 2,
            an_height = 1, an_created_at = 4, an_updated_at = 4\<rparr>]"
    unfolding collision_db_eq by (simp add: getAnnotations_eq index_getAll_def)
  moreover have "fst (getImages 1 collision_db) = collision_db"
    "fst (getAnnotations 1 collision_db) = collision_db"
    "fst (getAnnotations 2 collision_db) = collision_db"
    "fst (exportNeurova demo_fmt (Natural 1) collision_db) = collision_db"
    by (simp_all add: getImages_eq getAnnotations_eq exportNeurova_fst)
  ultimately show ?thesis using collision_export by (simp add: prod_eq_iff)
qed


section \<open>Create, read, update and delete\<close>






































end
